theory Spec2Isabelle
  imports Complex_Main "HOL-Library.Multiset"
begin

section \<open>Data model\<close>

text \<open>
  The dataclasses of \<^verbatim>\<open>intelligent_load_balancer.py\<close>. Python floats are read as
  real numbers and Python ints as integers; clock readings (\<^verbatim>\<open>time.time()\<close>,
  \<^verbatim>\<open>datetime.now()\<close>) are reals handed to the operation that reads the clock.
\<close>

record AccountMetrics =
  account_id :: string
  daily_cost :: real
  daily_requests :: int
  success_rate :: real
  avg_response_time :: real
  current_concurrent :: int
  requests_per_minute :: real
  uptime_hours :: real
  total_hours :: real
  recovery_time_avg :: real
  error_count :: int
  last_used :: "real option"
  m_status :: string
  m_priority :: int

record Account =
  acc_id :: string
  name :: string
  status :: string
  priority :: int
  metrics :: AccountMetrics

section \<open>MetricsCollector\<close>

text \<open>
  The four \<^verbatim>\<open>defaultdict\<close>s are total functions from the account id; the default of a
  key never written is the empty deque, respectively 0.
\<close>

record MetricsCollector =
  window_size :: nat
  response_times :: "string \<Rightarrow> real list"
  success_counts :: "string \<Rightarrow> int"
  total_counts :: "string \<Rightarrow> int"
  cost_history :: "string \<Rightarrow> real list"

definition MetricsCollector_init :: "nat \<Rightarrow> MetricsCollector" where
  "MetricsCollector_init n =
     \<lparr>window_size = n, response_times = (\<lambda>_. []), success_counts = (\<lambda>_. 0),
      total_counts = (\<lambda>_. 0), cost_history = (\<lambda>_. [])\<rparr>"

text \<open>\<^verbatim>\<open>deque(maxlen=n).append(x)\<close>: the new element goes to the right end and the
  deque keeps its last \<open>n\<close> elements.\<close>

definition deque_append :: "nat \<Rightarrow> 'a list \<Rightarrow> 'a \<Rightarrow> 'a list" where
  "deque_append maxlen d x = drop (length (d @ [x]) - maxlen) (d @ [x])"

definition record_request ::
  "MetricsCollector \<Rightarrow> string \<Rightarrow> real \<Rightarrow> bool \<Rightarrow> real \<Rightarrow> MetricsCollector" where
  "record_request mc aid response_time success cost =
     (let mc1 = mc\<lparr>response_times := (response_times mc)
                     (aid := deque_append (window_size mc) (response_times mc aid) response_time)\<rparr>;
          mc2 = mc1\<lparr>total_counts := (total_counts mc1)(aid := total_counts mc1 aid + 1)\<rparr>;
          mc3 = (if success
                 then mc2\<lparr>success_counts := (success_counts mc2)(aid := success_counts mc2 aid + 1)\<rparr>
                 else mc2)
      in if cost > 0
         then mc3\<lparr>cost_history := (cost_history mc3)
                     (aid := deque_append (window_size mc3) (cost_history mc3 aid) cost)\<rparr>
         else mc3)"

record MetricsSnapshot =
  snap_avg_response_time :: real
  snap_success_rate :: real
  snap_daily_cost :: real
  snap_daily_requests :: int
  snap_requests_per_minute :: real

definition get_metrics :: "MetricsCollector \<Rightarrow> string \<Rightarrow> MetricsSnapshot" where
  "get_metrics mc aid =
     (let rts = response_times mc aid;
          costs = cost_history mc aid;
          avg_rt = (if rts \<noteq> [] then sum_list rts / real (length rts) else 0);
          sr = real_of_int (success_counts mc aid) / real_of_int (max 1 (total_counts mc aid));
          dc = (if costs \<noteq> [] then sum_list costs else 0);
          dr = int (length rts);
          rpm = real_of_int dr / max 1 (real (length rts) * (1 / 100))
      in \<lparr>snap_avg_response_time = avg_rt, snap_success_rate = sr, snap_daily_cost = dc,
          snap_daily_requests = dr, snap_requests_per_minute = rpm\<rparr>)"

text \<open>A history of recorded outcomes: the arguments of successive \<^verbatim>\<open>record_request\<close> calls.\<close>

type_synonym outcome = "string \<times> real \<times> bool \<times> real"

fun record_all :: "MetricsCollector \<Rightarrow> outcome list \<Rightarrow> MetricsCollector" where
  "record_all mc [] = mc"
| "record_all mc ((aid, rt, ok, cost) # rest) = record_all (record_request mc aid rt ok cost) rest"

section \<open>AccountScorer\<close>

definition w_cost :: real where "w_cost = 4 / 10"
definition w_health :: real where "w_health = 3 / 10"
definition w_performance :: real where "w_performance = 2 / 10"
definition w_reliability :: real where "w_reliability = 1 / 10"

definition normalize_value :: "real \<Rightarrow> real \<Rightarrow> real \<Rightarrow> real" where
  "normalize_value v min_val max_val =
     (if max_val = min_val then 1 / 2
      else max 0 (min 1 ((v - min_val) / (max_val - min_val))))"

text \<open>Python's \<^verbatim>\<open>min\<close> and \<^verbatim>\<open>max\<close> of a list. On the empty list Python raises
  ValueError; every call below is guarded by a test that the list is not empty.\<close>

fun py_min :: "'a::linorder list \<Rightarrow> 'a" where
  "py_min (x # xs) = fold min xs x"

fun py_max :: "'a::linorder list \<Rightarrow> 'a" where
  "py_max (x # xs) = fold max xs x"

definition cost_per_request :: "Account \<Rightarrow> real" where
  "cost_per_request acc = daily_cost (metrics acc) / real_of_int (daily_requests (metrics acc))"

definition all_costs :: "Account list \<Rightarrow> real list" where
  "all_costs all_accounts =
     map cost_per_request (filter (\<lambda>acc. daily_requests (metrics acc) > 0) all_accounts)"

definition calculate_cost_score :: "Account \<Rightarrow> Account list \<Rightarrow> real" where
  "calculate_cost_score account all_accounts =
     (if daily_requests (metrics account) = 0 then 1 / 2
      else let costs = all_costs all_accounts
           in if costs = [] \<or> length costs < 2 then 1 / 2
              else 1 - normalize_value (cost_per_request account) (py_min costs) (py_max costs))"

definition calculate_health_score :: "Account \<Rightarrow> Account list \<Rightarrow> real" where
  "calculate_health_score account all_accounts =
     (let all_response_times =
            filter (\<lambda>t. t > 0) (map (\<lambda>acc. avg_response_time (metrics acc)) all_accounts);
          response_score =
            (if all_response_times \<noteq> []
             then 1 - normalize_value (avg_response_time (metrics account))
                        (py_min all_response_times) (py_max all_response_times)
             else 1 / 2);
          availability = (if status account = ''active'' then 1 else 0)
      in (4 / 10) * response_score + (4 / 10) * success_rate (metrics account)
         + (2 / 10) * availability)"

definition calculate_performance_score :: "Account \<Rightarrow> Account list \<Rightarrow> real" where
  "calculate_performance_score account all_accounts =
     (let all_throughputs = map (\<lambda>acc. requests_per_minute (metrics acc)) all_accounts;
          throughput_score =
            (if all_throughputs \<noteq> [] \<and> py_max all_throughputs > py_min all_throughputs
             then normalize_value (requests_per_minute (metrics account))
                    (py_min all_throughputs) (py_max all_throughputs)
             else 1 / 2);
          all_concurrent = map (\<lambda>acc. current_concurrent (metrics acc)) all_accounts;
          load_balance_score =
            (if all_concurrent \<noteq> [] \<and> py_max all_concurrent > py_min all_concurrent
             then 1 - normalize_value (real_of_int (current_concurrent (metrics account)))
                        (real_of_int (py_min all_concurrent)) (real_of_int (py_max all_concurrent))
             else 1 / 2)
      in (6 / 10) * throughput_score + (4 / 10) * load_balance_score)"

definition calculate_reliability_score :: "Account \<Rightarrow> Account list \<Rightarrow> real" where
  "calculate_reliability_score account all_accounts =
     (let uptime_score = uptime_hours (metrics account) / max 1 (total_hours (metrics account));
          all_recovery_times =
            filter (\<lambda>t. t > 0) (map (\<lambda>acc. recovery_time_avg (metrics acc)) all_accounts);
          error_recovery_score =
            (if all_recovery_times \<noteq> []
             then 1 - normalize_value (recovery_time_avg (metrics account))
                        (py_min all_recovery_times) (py_max all_recovery_times)
             else 1 / 2)
      in (6 / 10) * uptime_score + (4 / 10) * error_recovery_score)"

definition calculate_account_score :: "Account \<Rightarrow> Account list \<Rightarrow> real" where
  "calculate_account_score account all_accounts =
     w_cost * calculate_cost_score account all_accounts
     + w_health * calculate_health_score account all_accounts
     + w_performance * calculate_performance_score account all_accounts
     + w_reliability * calculate_reliability_score account all_accounts"

text \<open>The preconditions the data model puts on an account's metrics.\<close>

definition metrics_ok :: "Account \<Rightarrow> bool" where
  "metrics_ok acc =
     (let m = metrics acc
      in 0 \<le> daily_cost m \<and> 0 \<le> daily_requests m
         \<and> 0 \<le> success_rate m \<and> success_rate m \<le> 1
         \<and> 0 \<le> avg_response_time m \<and> 0 \<le> current_concurrent m
         \<and> 0 \<le> requests_per_minute m
         \<and> 0 < uptime_hours m \<and> 0 < total_hours m \<and> uptime_hours m \<le> total_hours m
         \<and> 0 \<le> recovery_time_avg m \<and> 0 \<le> error_count m)"

section \<open>HealthMonitor\<close>

record HealthMetrics =
  response_time :: real
  hm_success_rate :: real
  error_rate :: real
  rate_limit_status :: bool

record HealthEntry =
  healthy :: bool
  entry_metrics :: HealthMetrics
  timestamp :: real

record HealthMonitor =
  check_interval :: int
  health_cache :: "string \<rightharpoonup> HealthEntry"

definition HealthMonitor_init :: "int \<Rightarrow> HealthMonitor" where
  "HealthMonitor_init n = \<lparr>check_interval = n, health_cache = Map.empty\<rparr>"

definition measure_health_metrics :: "Account \<Rightarrow> HealthMetrics" where
  "measure_health_metrics account =
     \<lparr>response_time = avg_response_time (metrics account),
      hm_success_rate = success_rate (metrics account),
      error_rate = 1 - success_rate (metrics account),
      rate_limit_status = (error_count (metrics account) > 10)\<rparr>"

definition health_verdict :: "Account \<Rightarrow> bool" where
  "health_verdict account =
     (let hmx = measure_health_metrics account
      in response_time hmx < 5000 \<and> hm_success_rate hmx > 95 / 100
         \<and> error_rate hmx < 5 / 100 \<and> \<not> rate_limit_status hmx
         \<and> status account = ''active'')"

definition cache_valid :: "HealthMonitor \<Rightarrow> real \<Rightarrow> string \<Rightarrow> bool" where
  "cache_valid hm now cache_key =
     (case health_cache hm cache_key of
        None \<Rightarrow> False
      | Some e \<Rightarrow> now - timestamp e < real_of_int (check_interval hm))"

definition check_account_health ::
  "HealthMonitor \<Rightarrow> real \<Rightarrow> Account \<Rightarrow> bool \<times> HealthMonitor" where
  "check_account_health hm now account =
     (let cache_key = acc_id account
      in if cache_valid hm now cache_key
         then (healthy (the (health_cache hm cache_key)), hm)
         else let is_healthy = health_verdict account
              in (is_healthy,
                  hm\<lparr>health_cache := (health_cache hm)
                       (cache_key \<mapsto> \<lparr>healthy = is_healthy,
                                      entry_metrics = measure_health_metrics account,
                                      timestamp = now\<rparr>)\<rparr>))"

section \<open>FailureRecovery\<close>

record CircuitState =
  cb_status :: string
  retry_time :: real
  cb_type :: string

record FailureRecovery =
  failure_counts :: "string \<rightharpoonup> int"
  circuit_breaker :: "string \<rightharpoonup> CircuitState"

definition FailureRecovery_init :: FailureRecovery where
  "FailureRecovery_init = \<lparr>failure_counts = Map.empty, circuit_breaker = Map.empty\<rparr>"

text \<open>Reading \<^verbatim>\<open>failure_counts[account_id]\<close> of the \<^verbatim>\<open>defaultdict(int)\<close>.\<close>

definition failure_count :: "FailureRecovery \<Rightarrow> string \<Rightarrow> int" where
  "failure_count fr aid = (case failure_counts fr aid of None \<Rightarrow> 0 | Some n \<Rightarrow> n)"

definition mark_temporary_failure ::
  "FailureRecovery \<Rightarrow> real \<Rightarrow> string \<Rightarrow> real \<Rightarrow> FailureRecovery" where
  "mark_temporary_failure fr now aid retry_delay =
     fr\<lparr>circuit_breaker := (circuit_breaker fr)
          (aid \<mapsto> \<lparr>cb_status = ''open'', retry_time = now + retry_delay,
                   cb_type = ''temporary''\<rparr>)\<rparr>"

text \<open>The \<^verbatim>\<open>print\<close> of the token refresh is output only and is left out.\<close>

definition trigger_token_refresh :: "FailureRecovery \<Rightarrow> real \<Rightarrow> string \<Rightarrow> FailureRecovery" where
  "trigger_token_refresh fr now aid = mark_temporary_failure fr now aid 60"

definition backoff_time :: "int \<Rightarrow> int" where
  "backoff_time fc = min (300 * 2 ^ nat (fc - 5)) 3600"

definition activate_circuit_breaker :: "FailureRecovery \<Rightarrow> real \<Rightarrow> string \<Rightarrow> FailureRecovery" where
  "activate_circuit_breaker fr now aid =
     (let fc = failure_count fr aid
      in if fc \<ge> 5
         then fr\<lparr>circuit_breaker := (circuit_breaker fr)
                   (aid \<mapsto> \<lparr>cb_status = ''open'',
                            retry_time = now + real_of_int (backoff_time fc),
                            cb_type = ''circuit_breaker''\<rparr>)\<rparr>
         else fr)"

definition handle_request_failure ::
  "FailureRecovery \<Rightarrow> real \<Rightarrow> string \<Rightarrow> string \<Rightarrow> FailureRecovery" where
  "handle_request_failure fr now aid error_type =
     (let fr1 = fr\<lparr>failure_counts := (failure_counts fr)(aid \<mapsto> failure_count fr aid + 1)\<rparr>
      in if error_type \<in> set [''rate_limit'', ''quota_exceeded'']
         then mark_temporary_failure fr1 now aid 300
         else if error_type \<in> set [''auth_error'', ''invalid_token'']
         then trigger_token_refresh fr1 now aid
         else activate_circuit_breaker fr1 now aid)"

definition can_use_account :: "FailureRecovery \<Rightarrow> real \<Rightarrow> string \<Rightarrow> bool \<times> FailureRecovery" where
  "can_use_account fr now aid =
     (case circuit_breaker fr aid of
        None \<Rightarrow> (True, fr)
      | Some cb_state \<Rightarrow>
          if cb_status cb_state = ''open''
          then if now \<ge> retry_time cb_state
               then (True, fr\<lparr>circuit_breaker := (circuit_breaker fr)
                               (aid \<mapsto> cb_state\<lparr>cb_status := ''half_open''\<rparr>)\<rparr>)
               else (False, fr)
          else (True, fr))"

definition mark_success :: "FailureRecovery \<Rightarrow> string \<Rightarrow> FailureRecovery" where
  "mark_success fr aid =
     (let fr1 = (if aid \<in> dom (failure_counts fr)
                 then fr\<lparr>failure_counts := (failure_counts fr)(aid \<mapsto> 0)\<rparr> else fr)
      in if aid \<in> dom (circuit_breaker fr1)
         then fr1\<lparr>circuit_breaker := (circuit_breaker fr1)(aid := None)\<rparr> else fr1)"

text \<open>A run of \<open>n\<close> failures of one kind for one account, at the times given.\<close>

fun failures :: "FailureRecovery \<Rightarrow> string \<Rightarrow> string \<Rightarrow> real list \<Rightarrow> FailureRecovery" where
  "failures fr aid error_type [] = fr"
| "failures fr aid error_type (t # ts) =
     failures (handle_request_failure fr t aid error_type) aid error_type ts"

section \<open>Sorting and random choice\<close>

text \<open>
  \<^verbatim>\<open>sorted(xs, key=k, reverse=True)\<close> and \<^verbatim>\<open>xs.sort(key=k, reverse=True)\<close>: descending
  by the key, elements with equal keys staying in their original order.
\<close>

definition sorted_reverse :: "('a \<Rightarrow> real) \<Rightarrow> 'a list \<Rightarrow> 'a list" where
  "sorted_reverse key xs = sort_key (\<lambda>x. - key x) xs"

text \<open>\<^verbatim>\<open>random.choice(seq)\<close> returns \<^verbatim>\<open>seq[i]\<close> for an index \<open>i\<close> drawn below
  \<^verbatim>\<open>len(seq)\<close>, and raises IndexError on an empty sequence. The draw is the number \<open>r\<close>.\<close>

definition random_choice :: "nat \<Rightarrow> 'a list \<Rightarrow> 'a" where
  "random_choice r xs = xs ! (r mod length xs)"

section \<open>CostOptimizer\<close>

definition CostOptimizer_select_account :: "Account list \<Rightarrow> Account option" where
  "CostOptimizer_select_account accounts =
     (let healthy_accounts = filter (\<lambda>acc. status acc = ''active'') accounts
      in if healthy_accounts = [] then None
         else if length healthy_accounts = 1 then Some (healthy_accounts ! 0)
         else let scored_accounts =
                    map (\<lambda>account.
                           (account,
                            (7 / 10) * calculate_cost_score account healthy_accounts
                            + (3 / 10) * calculate_health_score account healthy_accounts))
                        healthy_accounts
              in Some (fst (sorted_reverse snd scored_accounts ! 0)))"

section \<open>WeightedRoundRobin\<close>

record WeightedRoundRobin =
  current_weights :: "string \<rightharpoonup> int"
  total_weights :: "string \<rightharpoonup> int"

definition WeightedRoundRobin_init :: WeightedRoundRobin where
  "WeightedRoundRobin_init = \<lparr>current_weights = Map.empty, total_weights = Map.empty\<rparr>"

text \<open>\<^verbatim>\<open>int(x)\<close> of a float truncates towards zero.\<close>

definition py_int :: "real \<Rightarrow> int" where
  "py_int x = (if x \<ge> 0 then \<lfloor>x\<rfloor> else \<lceil>x\<rceil>)"

text \<open>The first loop: the dynamic weight of every candidate, and a current weight of 0
  for an id seen for the first time.\<close>

fun update_weights ::
  "WeightedRoundRobin \<Rightarrow> Account list \<Rightarrow> Account list \<Rightarrow> WeightedRoundRobin" where
  "update_weights w [] healthy_accounts = w"
| "update_weights w (account # rest) healthy_accounts =
     (let score = calculate_account_score account healthy_accounts;
          w1 = w\<lparr>total_weights := (total_weights w)
                    (acc_id account \<mapsto> max 1 (py_int (score * 100)))\<rparr>;
          w2 = (if acc_id account \<notin> dom (current_weights w1)
                then w1\<lparr>current_weights := (current_weights w1)(acc_id account \<mapsto> 0)\<rparr>
                else w1)
      in update_weights w2 rest healthy_accounts)"

text \<open>The second loop, with \<^verbatim>\<open>max_current_weight\<close> and \<^verbatim>\<open>selected_account\<close> as
  accumulators. Both dictionaries hold every candidate's id after the first loop.\<close>

fun scan_weights ::
  "WeightedRoundRobin \<Rightarrow> int \<Rightarrow> Account option \<Rightarrow> Account list
     \<Rightarrow> WeightedRoundRobin \<times> int \<times> Account option" where
  "scan_weights w max_current_weight selected_account [] =
     (w, max_current_weight, selected_account)"
| "scan_weights w max_current_weight selected_account (account # rest) =
     (let cw = the (current_weights w (acc_id account)) + the (total_weights w (acc_id account));
          w1 = w\<lparr>current_weights := (current_weights w)(acc_id account \<mapsto> cw)\<rparr>
      in if cw > max_current_weight
         then scan_weights w1 cw (Some account) rest
         else scan_weights w1 max_current_weight selected_account rest)"

definition WeightedRoundRobin_select_account ::
  "WeightedRoundRobin \<Rightarrow> Account list \<Rightarrow> Account option \<times> WeightedRoundRobin" where
  "WeightedRoundRobin_select_account w accounts =
     (if accounts = [] then (None, w)
      else let healthy_accounts = filter (\<lambda>acc. status acc = ''active'') accounts
           in if healthy_accounts = [] then (None, w)
              else let w1 = update_weights w healthy_accounts healthy_accounts;
                       (w2, max_current_weight, selected_account) =
                          scan_weights w1 (- 1) None healthy_accounts
                   in case selected_account of
                        None \<Rightarrow> (None, w2)
                      | Some sel \<Rightarrow>
                          let total_weight_sum =
                                sum_list (map (\<lambda>acc. the (total_weights w2 (acc_id acc)))
                                              healthy_accounts)
                          in (Some sel,
                              w2\<lparr>current_weights := (current_weights w2)
                                   (acc_id sel \<mapsto>
                                      the (current_weights w2 (acc_id sel)) - total_weight_sum)\<rparr>))"

text \<open>Reading a current weight where an id never seen counts as 0, the value the
  first loop gives it; and the sum of the current weights over a set of ids.\<close>

definition weight_of :: "WeightedRoundRobin \<Rightarrow> string \<Rightarrow> int" where
  "weight_of w i = (case current_weights w i of None \<Rightarrow> 0 | Some v \<Rightarrow> v)"

definition active_ids :: "Account list \<Rightarrow> string set" where
  "active_ids accounts = set (map acc_id (filter (\<lambda>acc. status acc = ''active'') accounts))"

definition weight_sum :: "WeightedRoundRobin \<Rightarrow> string set \<Rightarrow> int" where
  "weight_sum w ids = (\<Sum>i\<in>ids. weight_of w i)"

text \<open>The sum of the candidates' total weights, which the winner loses.\<close>

definition wrr_total :: "WeightedRoundRobin \<Rightarrow> Account list \<Rightarrow> int" where
  "wrr_total w accounts =
     sum_list (map (\<lambda>acc. the (total_weights w (acc_id acc)))
                   (filter (\<lambda>acc. status acc = ''active'') accounts))"

text \<open>A sequence of calls, each with its own candidate list.\<close>

fun select_all :: "WeightedRoundRobin \<Rightarrow> Account list list \<Rightarrow> WeightedRoundRobin" where
  "select_all w [] = w"
| "select_all w (accounts # calls) =
     select_all (snd (WeightedRoundRobin_select_account w accounts)) calls"

section \<open>IntelligentScheduler\<close>

definition a_cost_priority :: real where "a_cost_priority = 4 / 10"
definition a_performance :: real where "a_performance = 3 / 10"
definition a_load_balance :: real where "a_load_balance = 2 / 10"
definition a_reliability :: real where "a_reliability = 1 / 10"

record SelectionStats =
  total_selections :: int
  avg_selection_time :: real
  cache_hits :: int
  algorithm_usage :: "string \<Rightarrow> int"

record IntelligentScheduler =
  metrics_collector :: MetricsCollector
  weighted_rr :: WeightedRoundRobin
  health_monitor :: HealthMonitor
  failure_recovery :: FailureRecovery
  selection_stats :: SelectionStats

definition IntelligentScheduler_init :: IntelligentScheduler where
  "IntelligentScheduler_init =
     \<lparr>metrics_collector = MetricsCollector_init 100,
      weighted_rr = WeightedRoundRobin_init,
      health_monitor = HealthMonitor_init 30,
      failure_recovery = FailureRecovery_init,
      selection_stats = \<lparr>total_selections = 0, avg_selection_time = 0, cache_hits = 0,
                         algorithm_usage = (\<lambda>_. 0)\<rparr>\<rparr>"

text \<open>
  What one call of \<^verbatim>\<open>select_account\<close> reads from outside: the clock at entry, during
  filtering and when the selection is recorded, and the draws of the random source
  for the strategy and for the fallback.
\<close>

record Env =
  t_start :: real
  t_check :: real
  t_end :: real
  rnd_select :: nat
  rnd_fallback :: nat

datatype error = NoAvailableAccounts | IndexError | ZeroDivisionError

definition refresh_metrics :: "MetricsCollector \<Rightarrow> Account \<Rightarrow> Account" where
  "refresh_metrics mc account =
     (let snap = get_metrics mc (acc_id account)
      in account\<lparr>metrics := (metrics account)
           \<lparr>avg_response_time := snap_avg_response_time snap,
            success_rate := snap_success_rate snap,
            daily_cost := snap_daily_cost snap,
            daily_requests := snap_daily_requests snap,
            requests_per_minute := snap_requests_per_minute snap\<rparr>\<rparr>)"

text \<open>
  \<^verbatim>\<open>_filter_available_accounts\<close> overwrites the metrics of every account in place and
  returns the available ones. The model returns the accounts as they are after the
  call, the available ones among them, and the scheduler. The breaker is asked only
  for an account the health monitor passes (\<^verbatim>\<open>and\<close> is short-circuit).
\<close>

fun filter_available_accounts ::
  "IntelligentScheduler \<Rightarrow> real \<Rightarrow> Account list
     \<Rightarrow> Account list \<times> Account list \<times> IntelligentScheduler" where
  "filter_available_accounts sch now [] = ([], [], sch)"
| "filter_available_accounts sch now (account # rest) =
     (let account1 = refresh_metrics (metrics_collector sch) account;
          (is_healthy, hm1) = check_account_health (health_monitor sch) now account1;
          sch1 = sch\<lparr>health_monitor := hm1\<rparr>;
          (ok, sch2) =
            (if is_healthy
             then let (usable, fr1) = can_use_account (failure_recovery sch1) now (acc_id account1)
                  in (usable, sch1\<lparr>failure_recovery := fr1\<rparr>)
             else (False, sch1));
          (refreshed, available, sch3) = filter_available_accounts sch2 now rest
      in (account1 # refreshed, (if ok then account1 # available else available), sch3))"

text \<open>The context dictionary as an association list; \<^verbatim>\<open>not context\<close> holds for
  \<^verbatim>\<open>None\<close> and for the empty dictionary.\<close>

definition context_get :: "(string \<times> bool) list \<Rightarrow> string \<Rightarrow> bool" where
  "context_get c k = (case map_of c k of None \<Rightarrow> False | Some b \<Rightarrow> b)"

definition select_algorithm :: "(string \<times> bool) list option \<Rightarrow> string" where
  "select_algorithm context =
     (case context of
        None \<Rightarrow> ''intelligent''
      | Some c \<Rightarrow>
          if c = [] then ''intelligent''
          else if context_get c ''cost_sensitive'' then ''cost_first''
          else if context_get c ''high_concurrency'' then ''weighted_round_robin''
          else ''intelligent'')"

definition intelligent_score :: "Account \<Rightarrow> Account list \<Rightarrow> real" where
  "intelligent_score account accounts =
     a_cost_priority * calculate_cost_score account accounts
     + a_performance * calculate_performance_score account accounts
     + a_load_balance * calculate_health_score account accounts
     + a_reliability * calculate_reliability_score account accounts"

text \<open>The dictionary \<^verbatim>\<open>scores\<close>, keyed by account id, filled in list order.\<close>

definition score_table :: "Account list \<Rightarrow> (string \<rightharpoonup> real)" where
  "score_table accounts =
     fold (\<lambda>account scores. scores(acc_id account \<mapsto> intelligent_score account accounts))
          accounts Map.empty"

definition sorted_accounts :: "Account list \<Rightarrow> Account list" where
  "sorted_accounts accounts =
     sorted_reverse (\<lambda>x. the (score_table accounts (acc_id x))) accounts"

definition top_percent :: "Account list \<Rightarrow> nat" where
  "top_percent accounts = max 1 (length (sorted_accounts accounts) div 5)"

definition intelligent_selection :: "nat \<Rightarrow> Account list \<Rightarrow> Account option" where
  "intelligent_selection r accounts =
     (if accounts = [] then None
      else Some (random_choice r (take (top_percent accounts) (sorted_accounts accounts))))"

definition apply_selection_algorithm ::
  "IntelligentScheduler \<Rightarrow> nat \<Rightarrow> string \<Rightarrow> Account list
     \<Rightarrow> (error + Account option) \<times> IntelligentScheduler" where
  "apply_selection_algorithm sch r algorithm accounts =
     (if algorithm = ''cost_first'' then (Inr (CostOptimizer_select_account accounts), sch)
      else if algorithm = ''weighted_round_robin''
      then let (sel, w) = WeightedRoundRobin_select_account (weighted_rr sch) accounts
           in (Inr sel, sch\<lparr>weighted_rr := w\<rparr>)
      else if algorithm = ''intelligent'' then (Inr (intelligent_selection r accounts), sch)
      else if accounts = [] then (Inl IndexError, sch)
      else (Inr (Some (random_choice r accounts)), sch))"

text \<open>\<^verbatim>\<open>_record_selection_metrics\<close>: the running mean of the selection time, and the
  stamp on the chosen account, which shows in the account returned.\<close>

definition record_selection_metrics ::
  "IntelligentScheduler \<Rightarrow> Account option \<Rightarrow> real \<Rightarrow> real
     \<Rightarrow> error + (Account option \<times> IntelligentScheduler)" where
  "record_selection_metrics sch account selection_time now =
     (let stats = selection_stats sch;
          total_time = avg_selection_time stats * real_of_int (total_selections stats - 1)
                       + selection_time
      in if total_selections stats = 0 then Inl ZeroDivisionError
         else Inr (map_option (\<lambda>a. a\<lparr>metrics := (metrics a)\<lparr>last_used := Some now\<rparr>\<rparr>) account,
                   sch\<lparr>selection_stats := stats
                        \<lparr>avg_selection_time :=
                           total_time / real_of_int (total_selections stats)\<rparr>\<rparr>))"

text \<open>The \<^verbatim>\<open>except\<close> branch: a random pick from the caller's list, whose accounts
  carry the metrics written by the filter. Its \<^verbatim>\<open>print\<close> is left out.\<close>

definition fallback ::
  "IntelligentScheduler \<Rightarrow> nat \<Rightarrow> Account list \<Rightarrow> Account option \<times> IntelligentScheduler" where
  "fallback sch r accounts =
     ((if accounts \<noteq> [] then Some (random_choice r accounts) else None), sch)"

definition select_account ::
  "IntelligentScheduler \<Rightarrow> Env \<Rightarrow> Account list \<Rightarrow> (string \<times> bool) list option
     \<Rightarrow> Account option \<times> IntelligentScheduler" where
  "select_account sch env accounts context =
     (let sch1 = sch\<lparr>selection_stats := (selection_stats sch)
                      \<lparr>total_selections := total_selections (selection_stats sch) + 1\<rparr>\<rparr>;
          (refreshed, available_accounts, sch2) =
             filter_available_accounts sch1 (t_check env) accounts
      in if available_accounts = [] then fallback sch2 (rnd_fallback env) refreshed
         else if length available_accounts = 1 then (Some (available_accounts ! 0), sch2)
         else
           let algorithm = select_algorithm context;
               sch3 = sch2\<lparr>selection_stats := (selection_stats sch2)
                            \<lparr>algorithm_usage := (algorithm_usage (selection_stats sch2))
                               (algorithm := algorithm_usage (selection_stats sch2) algorithm + 1)\<rparr>\<rparr>
           in case apply_selection_algorithm sch3 (rnd_select env) algorithm available_accounts of
                (Inl e, sch4) \<Rightarrow> fallback sch4 (rnd_fallback env) refreshed
              | (Inr selected_account, sch4) \<Rightarrow>
                  (case record_selection_metrics sch4 selected_account
                          (t_end env - t_start env) (t_end env) of
                     Inl e \<Rightarrow> fallback sch4 (rnd_fallback env) refreshed
                   | Inr res \<Rightarrow> res))"

definition record_request_result ::
  "IntelligentScheduler \<Rightarrow> real \<Rightarrow> string \<Rightarrow> bool \<Rightarrow> real \<Rightarrow> real \<Rightarrow> string option
     \<Rightarrow> IntelligentScheduler" where
  "record_request_result sch now aid success rt cost error_type =
     (let sch1 = sch\<lparr>metrics_collector := record_request (metrics_collector sch) aid rt success cost\<rparr>
      in if success
         then sch1\<lparr>failure_recovery := mark_success (failure_recovery sch1) aid\<rparr>
         else case error_type of
                None \<Rightarrow> sch1
              | Some e \<Rightarrow>
                  if e = [] then sch1
                  else sch1\<lparr>failure_recovery :=
                              handle_request_failure (failure_recovery sch1) now aid e\<rparr>)"

section \<open>Example accounts\<close>

text \<open>\<^verbatim>\<open>Account(id, name, metrics=AccountMetrics(id, daily_cost=.., daily_requests=..,
  success_rate=.., avg_response_time=..))\<close>, every other field at its default.\<close>

definition mk_account :: "string \<Rightarrow> string \<Rightarrow> real \<Rightarrow> int \<Rightarrow> real \<Rightarrow> real \<Rightarrow> Account" where
  "mk_account aid nm cost reqs sr rt =
     \<lparr>acc_id = aid, name = nm, status = ''active'', priority = 50,
      metrics = \<lparr>account_id = aid, daily_cost = cost, daily_requests = reqs,
                 success_rate = sr, avg_response_time = rt, current_concurrent = 0,
                 requests_per_minute = 0, uptime_hours = 24, total_hours = 24,
                 recovery_time_avg = 0, error_count = 0, last_used = None,
                 m_status = ''active'', m_priority = 50\<rparr>\<rparr>"

definition acc1 :: Account where
  "acc1 = mk_account ''acc1'' ''Account 1'' 10 100 (98 / 100) 200"

definition acc2 :: Account where
  "acc2 = mk_account ''acc2'' ''Account 2'' 30 150 (98 / 100) 150"

definition acc3 :: Account where
  "acc3 = mk_account ''acc3'' ''Account 3'' 12 80 (99 / 100) 250"

definition acc_new :: Account where
  "acc_new = mk_account ''acc4'' ''Account 4'' 0 0 1 0"

text \<open>\<open>acc1\<close> after its success rate has dropped to one half.\<close>

definition acc1_degraded :: Account where
  "acc1_degraded = acc1\<lparr>metrics := (metrics acc1)\<lparr>success_rate := 1 / 2\<rparr>\<rparr>"

definition acc5 :: Account where
  "acc5 = mk_account ''acc5'' ''Account 5'' 20 50 (97 / 100) 300"

definition acc6 :: Account where
  "acc6 = mk_account ''acc6'' ''Account 6'' 5 100 (96 / 100) 100"

definition six_accounts :: "Account list" where
  "six_accounts = [acc1, acc2, acc3, acc_new, acc5, acc6]"

text \<open>The size of the pool the specification gives the composite-intelligent strategy,
  in the specification's words: the top \<open>\<lceil>count / 5\<rceil>\<close>.\<close>

definition spec_top_count :: "nat \<Rightarrow> nat" where
  "spec_top_count n = nat \<lceil>real n / 5\<rceil>"

text \<open>The readings of one call that starts at time \<open>t\<close> and takes one second, both
  draws of the random source being 0.\<close>

definition env_at :: "real \<Rightarrow> Env" where
  "env_at t = \<lparr>t_start = t, t_check = t, t_end = t + 1, rnd_select = 0, rnd_fallback = 0\<rparr>"

text \<open>A scheduler that has seen one successful request of \<open>acc1\<close> and one of \<open>acc2\<close>.\<close>

definition warm_scheduler :: IntelligentScheduler where
  "warm_scheduler =
     record_request_result
       (record_request_result IntelligentScheduler_init 0 ''acc1'' True 200 (1 / 10) None)
       0 ''acc2'' True 150 (1 / 10) None"

definition acc1_inactive :: Account where
  "acc1_inactive = acc1\<lparr>status := ''inactive''\<rparr>"

definition acc2_inactive :: Account where
  "acc2_inactive = acc2\<lparr>status := ''inactive''\<rparr>"

section \<open>The rolling window and the derived rate\<close>

lemma deque_append_bound: "length (deque_append n d x) \<le> n"
  by (auto simp: deque_append_def)

lemma record_request_window [simp]: "window_size (record_request mc aid rt ok c) = window_size mc"
  by (simp add: record_request_def Let_def)

lemma record_request_bound:
  "length (response_times mc k) \<le> window_size mc \<Longrightarrow>
   length (response_times (record_request mc aid rt ok c) k) \<le> window_size mc"
  by (simp add: record_request_def Let_def deque_append_bound)

lemma record_all_window [simp]: "window_size (record_all mc h) = window_size mc"
  by (induction mc h rule: record_all.induct) simp_all

lemma record_all_bound:
  "length (response_times mc k) \<le> window_size mc \<Longrightarrow>
   length (response_times (record_all mc h) k) \<le> window_size mc"
proof (induction mc h rule: record_all.induct)
  case (1 mc)
  then show ?case by simp
next
  case (2 mc aid rt ok cost rest)
  from 2(2) have "length (response_times (record_request mc aid rt ok cost) k)
      \<le> window_size (record_request mc aid rt ok cost)"
    by (simp add: record_request_bound)
  from 2(1)[OF this] show ?case by simp
qed

lemma get_metrics_rpm:
  assumes "length (response_times mc aid) \<le> 100"
  shows "snap_requests_per_minute (get_metrics mc aid) = real_of_int (snap_daily_requests (get_metrics mc aid))"
proof -
  have "real (length (response_times mc aid)) * (1 / 100) \<le> 1" using assms by simp
  then have "max 1 (real (length (response_times mc aid)) * (1 / 100)) = 1" by (simp add: max_def)
  then show ?thesis by (simp add: get_metrics_def Let_def)
qed

text \<open>
  Claim C10. A collector of window capacity 100, after any history of recorded
  outcomes, reports for every account id a \<^verbatim>\<open>requests_per_minute\<close> equal to its
  \<^verbatim>\<open>daily_requests\<close>: the response-time window holds at most 100 entries, so the
  divisor \<^verbatim>\<open>max(1, count * 0.01)\<close> is 1. (The constant 0.01 is read as the real 1/100.)
\<close>

theorem rpm_equals_daily_requests:
  "snap_requests_per_minute (get_metrics (record_all (MetricsCollector_init 100) history) aid)
     = real_of_int (snap_daily_requests (get_metrics (record_all (MetricsCollector_init 100) history) aid))
   \<and> snap_daily_requests (get_metrics (record_all (MetricsCollector_init 100) history) aid) \<le> 100"
proof -
  let ?mc = "record_all (MetricsCollector_init 100) history"
  have "length (response_times ?mc aid) \<le> window_size (MetricsCollector_init 100)"
    by (rule record_all_bound) (simp add: MetricsCollector_init_def)
  then have b: "length (response_times ?mc aid) \<le> 100" by (simp add: MetricsCollector_init_def)
  from get_metrics_rpm[OF b] b show ?thesis by (simp add: get_metrics_def Let_def)
qed

section \<open>The circuit breaker\<close>

lemma generic_step:
  assumes "error_type \<notin> set [''rate_limit'', ''quota_exceeded'', ''auth_error'', ''invalid_token'']"
  shows "handle_request_failure fr now aid error_type =
     activate_circuit_breaker (fr\<lparr>failure_counts := (failure_counts fr)(aid \<mapsto> failure_count fr aid + 1)\<rparr>) now aid"
  using assms by (simp add: handle_request_failure_def Let_def)

lemma failures_generic_init:
  assumes g: "error_type \<notin> set [''rate_limit'', ''quota_exceeded'', ''auth_error'', ''invalid_token'']"
  shows "failure_count fr aid + int (length ts) < 5 \<Longrightarrow>
     circuit_breaker (failures fr aid error_type ts) = circuit_breaker fr
     \<and> failure_count (failures fr aid error_type ts) aid = failure_count fr aid + int (length ts)"
proof (induction ts arbitrary: fr)
  case Nil
  then show ?case by simp
next
  case (Cons t ts)
  let ?fr1 = "handle_request_failure fr t aid error_type"
  have c: "failure_count ?fr1 aid = failure_count fr aid + 1"
    by (simp add: generic_step[OF g] activate_circuit_breaker_def Let_def failure_count_def)
  have b: "circuit_breaker ?fr1 = circuit_breaker fr"
    using Cons.prems by (simp add: generic_step[OF g] activate_circuit_breaker_def Let_def failure_count_def)
  have "failure_count ?fr1 aid + int (length ts) < 5" using Cons.prems c by simp
  from Cons.IH[OF this] b c show ?case by simp
qed

text \<open>
  Claim C4. For an error kind outside the four classified ones,
  \<^verbatim>\<open>handle_request_failure\<close> increments the failure count; while the new count is
  below 5 the breaker records are unchanged, so \<^verbatim>\<open>can_use_account\<close> answers as before
  (and answers true after fewer than 5 such failures of a fresh account); from 5 on
  the breaker opens with retry time \<open>now + min (300 * 2 ^ (count - 5)) 3600\<close>: 300 s
  at the 5th failure, 600 s at the 6th, 3600 s from the 12th on.
\<close>

theorem generic_failure_breaker:
  assumes g: "error_type \<notin> set [''rate_limit'', ''quota_exceeded'', ''auth_error'', ''invalid_token'']"
  shows "failure_count (handle_request_failure fr now aid error_type) aid = failure_count fr aid + 1
    \<and> (failure_count fr aid + 1 < 5 \<longrightarrow>
         circuit_breaker (handle_request_failure fr now aid error_type) = circuit_breaker fr
         \<and> (\<forall>t. fst (can_use_account (handle_request_failure fr now aid error_type) t aid)
                = fst (can_use_account fr t aid)))
    \<and> (failure_count fr aid + 1 \<ge> 5 \<longrightarrow>
         circuit_breaker (handle_request_failure fr now aid error_type) aid =
           Some \<lparr>cb_status = ''open'',
                 retry_time = now + real_of_int (min (300 * 2 ^ nat (failure_count fr aid + 1 - 5)) 3600),
                 cb_type = ''circuit_breaker''\<rparr>
         \<and> \<not> fst (can_use_account (handle_request_failure fr now aid error_type) now aid))
    \<and> (failure_count fr aid + 1 = 5 \<longrightarrow>
         retry_time (the (circuit_breaker (handle_request_failure fr now aid error_type) aid)) = now + 300)
    \<and> (failure_count fr aid + 1 = 6 \<longrightarrow>
         retry_time (the (circuit_breaker (handle_request_failure fr now aid error_type) aid)) = now + 600)
    \<and> (failure_count fr aid + 1 \<ge> 12 \<longrightarrow>
         retry_time (the (circuit_breaker (handle_request_failure fr now aid error_type) aid)) = now + 3600)
    \<and> (length ts < 5 \<longrightarrow>
         fst (can_use_account (failures FailureRecovery_init aid error_type ts) t aid))"
proof -
  let ?fr' = "handle_request_failure fr now aid error_type"
  let ?n = "failure_count fr aid + 1"
  have eq: "?fr' = activate_circuit_breaker (fr\<lparr>failure_counts := (failure_counts fr)(aid \<mapsto> ?n)\<rparr>) now aid"
    by (rule generic_step[OF g])
  have c1: "failure_count ?fr' aid = ?n"
    by (simp add: eq activate_circuit_breaker_def Let_def failure_count_def)
  have c2: "?n < 5 \<Longrightarrow> circuit_breaker ?fr' = circuit_breaker fr"
    by (simp add: eq activate_circuit_breaker_def Let_def failure_count_def)
  have c2': "?n < 5 \<Longrightarrow> fst (can_use_account ?fr' t aid) = fst (can_use_account fr t aid)" for t
    using c2 by (simp add: can_use_account_def split: option.splits)
  have c3: "?n \<ge> 5 \<Longrightarrow> circuit_breaker ?fr' aid =
           Some \<lparr>cb_status = ''open'',
                 retry_time = now + real_of_int (min (300 * 2 ^ nat (?n - 5)) 3600),
                 cb_type = ''circuit_breaker''\<rparr>"
    by (simp add: eq activate_circuit_breaker_def Let_def failure_count_def backoff_time_def)
  have pos: "(0::int) < min (300 * 2 ^ k) 3600" for k :: nat by simp
  have c3': "?n \<ge> 5 \<Longrightarrow> \<not> fst (can_use_account ?fr' now aid)"
  proof -
    assume h: "?n \<ge> 5"
    have "0 < real_of_int (min (300 * 2 ^ nat (?n - 5)) 3600)"
      using pos[of "nat (?n - 5)"] by linarith
    then have "\<not> (now \<ge> now + real_of_int (min (300 * 2 ^ nat (?n - 5)) 3600))" by linarith
    then show ?thesis unfolding can_use_account_def c3[OF h] by simp
  qed
  have c4: "?n = 5 \<Longrightarrow> retry_time (the (circuit_breaker ?fr' aid)) = now + 300"
    using c3 by simp
  have c5: "?n = 6 \<Longrightarrow> retry_time (the (circuit_breaker ?fr' aid)) = now + 600"
    using c3 by simp
  have c6: "?n \<ge> 12 \<Longrightarrow> retry_time (the (circuit_breaker ?fr' aid)) = now + 3600"
  proof -
    assume h: "?n \<ge> 12"
    then have "nat (?n - 5) \<ge> 4" by simp
    then have "(2::int) ^ 4 \<le> 2 ^ nat (?n - 5)" by (intro power_increasing) simp_all
    then have "min (300 * (2::int) ^ nat (?n - 5)) 3600 = 3600" by simp
    with c3 h show ?thesis by simp
  qed
  have c7: "length ts < 5 \<Longrightarrow> fst (can_use_account (failures FailureRecovery_init aid error_type ts) t aid)"
  proof -
    assume "length ts < 5"
    then have "failure_count FailureRecovery_init aid + int (length ts) < 5"
      by (simp add: failure_count_def FailureRecovery_init_def)
    from failures_generic_init[OF g this]
    have "circuit_breaker (failures FailureRecovery_init aid error_type ts) = Map.empty"
      by (simp add: FailureRecovery_init_def)
    then show ?thesis by (simp add: can_use_account_def)
  qed
  show ?thesis using c1 c2 c2' c3 c3' c4 c5 c6 c7 by blast
qed

lemma four_failures_count:
  "failure_count (failures FailureRecovery_init ''acc1'' ''timeout'' [1, 2, 3, 4]) ''acc1'' = 4"
  by (simp add: handle_request_failure_def activate_circuit_breaker_def failure_count_def
      FailureRecovery_init_def Let_def)

theorem generic_failure_breaker_witness:
  "''timeout'' \<notin> set [''rate_limit'', ''quota_exceeded'', ''auth_error'', ''invalid_token'']
   \<and> failure_count FailureRecovery_init ''acc1'' + 1 < 5
   \<and> circuit_breaker (handle_request_failure FailureRecovery_init 1 ''acc1'' ''timeout'')
       = circuit_breaker FailureRecovery_init
   \<and> failure_count (failures FailureRecovery_init ''acc1'' ''timeout'' [1, 2, 3, 4]) ''acc1'' + 1 = 5
   \<and> fst (can_use_account (failures FailureRecovery_init ''acc1'' ''timeout'' [1, 2, 3, 4]) 5 ''acc1'')
   \<and> retry_time (the (circuit_breaker
        (handle_request_failure (failures FailureRecovery_init ''acc1'' ''timeout'' [1, 2, 3, 4])
           5 ''acc1'' ''timeout'') ''acc1'')) = 305
   \<and> \<not> fst (can_use_account
        (handle_request_failure (failures FailureRecovery_init ''acc1'' ''timeout'' [1, 2, 3, 4])
           5 ''acc1'' ''timeout'') 5 ''acc1'')
   \<and> failure_count (FailureRecovery_init\<lparr>failure_counts := [''acc1'' \<mapsto> 5]\<rparr>) ''acc1'' + 1 = 6
   \<and> retry_time (the (circuit_breaker
        (handle_request_failure (FailureRecovery_init\<lparr>failure_counts := [''acc1'' \<mapsto> 5]\<rparr>)
           0 ''acc1'' ''timeout'') ''acc1'')) = 600
   \<and> failure_count (FailureRecovery_init\<lparr>failure_counts := [''acc1'' \<mapsto> 11]\<rparr>) ''acc1'' + 1 \<ge> 12
   \<and> retry_time (the (circuit_breaker
        (handle_request_failure (FailureRecovery_init\<lparr>failure_counts := [''acc1'' \<mapsto> 11]\<rparr>)
           0 ''acc1'' ''timeout'') ''acc1'')) = 3600"
proof -
  have g: "''timeout'' \<notin> set [''rate_limit'', ''quota_exceeded'', ''auth_error'', ''invalid_token'']"
    by simp
  have c0: "failure_count FailureRecovery_init ''acc1'' = 0"
    and c5: "failure_count (FailureRecovery_init\<lparr>failure_counts := [''acc1'' \<mapsto> 5]\<rparr>) ''acc1'' = 5"
    and c11: "failure_count (FailureRecovery_init\<lparr>failure_counts := [''acc1'' \<mapsto> 11]\<rparr>) ''acc1'' = 11"
    by (simp_all add: failure_count_def FailureRecovery_init_def)
  show ?thesis
    using g four_failures_count c0 c5 c11
      generic_failure_breaker [OF g, of FailureRecovery_init 1 "''acc1''" "[]" 0]
      generic_failure_breaker [OF g, of "failures FailureRecovery_init ''acc1'' ''timeout'' [1, 2, 3, 4]"
        5 "''acc1''" "[1, 2, 3, 4]" 5]
      generic_failure_breaker [OF g, of "FailureRecovery_init\<lparr>failure_counts := [''acc1'' \<mapsto> 5]\<rparr>"
        0 "''acc1''" "[]" 0]
      generic_failure_breaker [OF g, of "FailureRecovery_init\<lparr>failure_counts := [''acc1'' \<mapsto> 11]\<rparr>"
        0 "''acc1''" "[]" 0]
    by simp
qed

text \<open>
  Claim C5. After one \<^verbatim>\<open>handle_request_failure\<close> with \<^verbatim>\<open>rate_limit\<close> at time \<open>t0\<close>,
  whatever the state before, \<^verbatim>\<open>can_use_account\<close> answers false and changes nothing at
  every time before \<open>t0 + 300\<close>; the first check at or after \<open>t0 + 300\<close> answers true
  and leaves the record half-open, and every later check answers true and leaves it so.
\<close>

theorem rate_limit_blocks_for_300s:
  "(now < t0 + 300 \<longrightarrow>
      can_use_account (handle_request_failure fr t0 aid ''rate_limit'') now aid
        = (False, handle_request_failure fr t0 aid ''rate_limit''))
   \<and> (now \<ge> t0 + 300 \<longrightarrow>
        fst (can_use_account (handle_request_failure fr t0 aid ''rate_limit'') now aid)
        \<and> circuit_breaker
            (snd (can_use_account (handle_request_failure fr t0 aid ''rate_limit'') now aid)) aid
          = Some \<lparr>cb_status = ''half_open'', retry_time = t0 + 300, cb_type = ''temporary''\<rparr>
        \<and> (\<forall>later. can_use_account
              (snd (can_use_account (handle_request_failure fr t0 aid ''rate_limit'') now aid))
              later aid
            = (True, snd (can_use_account (handle_request_failure fr t0 aid ''rate_limit'') now aid))))"
  by (simp add: handle_request_failure_def mark_temporary_failure_def can_use_account_def Let_def)

theorem rate_limit_blocks_for_300s_witness:
  "(299 :: real) < 0 + 300 \<and> (300 :: real) \<ge> 0 + 300
   \<and> \<not> fst (can_use_account (handle_request_failure FailureRecovery_init 0 ''acc1'' ''rate_limit'') 299 ''acc1'')
   \<and> fst (can_use_account (handle_request_failure FailureRecovery_init 0 ''acc1'' ''rate_limit'') 300 ''acc1'')"
  using rate_limit_blocks_for_300s [of 299 0 FailureRecovery_init "''acc1''"]
    rate_limit_blocks_for_300s [of 300 0 FailureRecovery_init "''acc1''"]
  by simp

section \<open>The health cache\<close>

text \<open>
  Claim C6. When \<^verbatim>\<open>check_account_health\<close> computes a verdict at time \<open>t\<close> (the cache
  holds no valid entry for the account), a call at time \<open>now\<close> with
  \<open>now - t < check_interval\<close> returns that verdict and leaves the cache as it is, even
  for an account of the same id whose metrics have changed; a call with
  \<open>now - t \<ge> check_interval\<close> computes the verdict from the metrics it is given and
  stores it with the new time.
\<close>

theorem health_verdict_cached:
  assumes miss: "\<not> cache_valid hm t (acc_id a)"
    and same: "acc_id a' = acc_id a"
  shows "fst (check_account_health hm t a) = health_verdict a
    \<and> (now - t < real_of_int (check_interval hm) \<longrightarrow>
         check_account_health (snd (check_account_health hm t a)) now a'
           = (health_verdict a, snd (check_account_health hm t a)))
    \<and> (now - t \<ge> real_of_int (check_interval hm) \<longrightarrow>
         fst (check_account_health (snd (check_account_health hm t a)) now a') = health_verdict a'
         \<and> health_cache (snd (check_account_health (snd (check_account_health hm t a)) now a')) (acc_id a)
             = Some \<lparr>healthy = health_verdict a', entry_metrics = measure_health_metrics a',
                     timestamp = now\<rparr>)"
  using miss same
  by (simp add: check_account_health_def cache_valid_def Let_def)

theorem health_verdict_cached_witness:
  "\<not> cache_valid (HealthMonitor_init 30) 0 (acc_id acc1)
   \<and> acc_id acc1_degraded = acc_id acc1
   \<and> health_verdict acc1 \<and> \<not> health_verdict acc1_degraded
   \<and> fst (check_account_health (snd (check_account_health (HealthMonitor_init 30) 0 acc1)) 29 acc1_degraded)
   \<and> \<not> fst (check_account_health (snd (check_account_health (HealthMonitor_init 30) 0 acc1)) 30 acc1_degraded)"
proof -
  have m: "\<not> cache_valid (HealthMonitor_init 30) 0 (acc_id acc1)"
    by (simp add: cache_valid_def HealthMonitor_init_def)
  have s: "acc_id acc1_degraded = acc_id acc1"
    by (simp add: acc1_degraded_def acc1_def mk_account_def)
  have g: "health_verdict acc1"
    by (simp add: health_verdict_def measure_health_metrics_def acc1_def mk_account_def Let_def)
  have b: "\<not> health_verdict acc1_degraded"
    by (simp add: health_verdict_def measure_health_metrics_def acc1_def acc1_degraded_def mk_account_def Let_def)
  have i: "check_interval (HealthMonitor_init 30) = 30" by (simp add: HealthMonitor_init_def)
  show ?thesis
    using m s g b health_verdict_cached [OF m s, of 29] health_verdict_cached [OF m s, of 30]
    by (simp add: i)
qed

section \<open>Scores\<close>

lemma normalize_value_range: "0 \<le> normalize_value v lo hi \<and> normalize_value v lo hi \<le> 1"
  by (simp add: normalize_value_def)

lemma one_minus_normalize_range:
  "0 \<le> 1 - normalize_value v lo hi \<and> 1 - normalize_value v lo hi \<le> 1"
  using normalize_value_range [of v lo hi] by simp

lemma py_min_Min: "xs \<noteq> [] \<Longrightarrow> py_min xs = Min (set xs)"
  using Min.set_eq_fold [of "hd xs" "tl xs"] by (cases xs) simp_all

lemma py_max_Max: "xs \<noteq> [] \<Longrightarrow> py_max xs = Max (set xs)"
  using Max.set_eq_fold [of "hd xs" "tl xs"] by (cases xs) simp_all

lemma py_min_le_py_max: "xs \<noteq> [] \<Longrightarrow> py_min xs \<le> py_max xs"
proof -
  assume ne: "xs \<noteq> []"
  then obtain x where "x \<in> set xs" by (cases xs) auto
  then have "Min (set xs) \<le> x" "x \<le> Max (set xs)" by simp_all
  then show ?thesis using ne by (simp add: py_min_Min py_max_Max)
qed

lemma normalize_value_mono:
  assumes "lo \<le> hi" "v \<le> v'"
  shows "normalize_value v lo hi \<le> normalize_value v' lo hi"
proof (cases "hi = lo")
  case True
  then show ?thesis by (simp add: normalize_value_def)
next
  case False
  with assms have "0 < hi - lo" by simp
  then have "(v - lo) / (hi - lo) \<le> (v' - lo) / (hi - lo)"
    using assms(2) by (simp add: divide_right_mono)
  then show ?thesis using False by (simp add: normalize_value_def max_def min_def)
qed

lemma cost_score_range:
  "0 \<le> calculate_cost_score a cs \<and> calculate_cost_score a cs \<le> 1"
  using one_minus_normalize_range
  by (simp add: calculate_cost_score_def Let_def)

lemma weighted3:
  fixes x y z :: real
  assumes "0 \<le> x" "x \<le> 1" "0 \<le> y" "y \<le> 1" "0 \<le> z" "z \<le> 1"
  shows "0 \<le> (4 / 10) * x + (4 / 10) * y + (2 / 10) * z
       \<and> (4 / 10) * x + (4 / 10) * y + (2 / 10) * z \<le> 1"
  using assms by simp

lemma weighted2:
  fixes x y :: real
  assumes "0 \<le> x" "x \<le> 1" "0 \<le> y" "y \<le> 1"
  shows "0 \<le> (6 / 10) * x + (4 / 10) * y \<and> (6 / 10) * x + (4 / 10) * y \<le> 1"
  using assms by simp

lemma health_score_range:
  assumes "0 \<le> success_rate (metrics a)" "success_rate (metrics a) \<le> 1"
  shows "0 \<le> calculate_health_score a cs \<and> calculate_health_score a cs \<le> 1"
proof -
  let ?rts = "filter (\<lambda>t. t > 0) (map (\<lambda>acc. avg_response_time (metrics acc)) cs)"
  let ?r = "if ?rts \<noteq> []
             then 1 - normalize_value (avg_response_time (metrics a)) (py_min ?rts) (py_max ?rts)
             else 1 / 2"
  let ?v = "if status a = ''active'' then 1 else 0 :: real"
  have r: "0 \<le> ?r \<and> ?r \<le> 1" using one_minus_normalize_range by simp
  have v: "0 \<le> ?v \<and> ?v \<le> 1" by simp
  have "calculate_health_score a cs = (4 / 10) * ?r + (4 / 10) * success_rate (metrics a) + (2 / 10) * ?v"
    by (simp add: calculate_health_score_def Let_def)
  then show ?thesis using weighted3 [of ?r "success_rate (metrics a)" ?v] r v assms by presburger
qed

lemma performance_score_range:
  "0 \<le> calculate_performance_score a cs \<and> calculate_performance_score a cs \<le> 1"
proof -
  let ?tp = "map (\<lambda>acc. requests_per_minute (metrics acc)) cs"
  let ?t = "if ?tp \<noteq> [] \<and> py_max ?tp > py_min ?tp
             then normalize_value (requests_per_minute (metrics a)) (py_min ?tp) (py_max ?tp)
             else 1 / 2"
  let ?cc = "map (\<lambda>acc. current_concurrent (metrics acc)) cs"
  let ?l = "if ?cc \<noteq> [] \<and> py_max ?cc > py_min ?cc
             then 1 - normalize_value (real_of_int (current_concurrent (metrics a)))
                        (real_of_int (py_min ?cc)) (real_of_int (py_max ?cc))
             else 1 / 2"
  have t: "0 \<le> ?t \<and> ?t \<le> 1" using normalize_value_range by simp
  have l: "0 \<le> ?l \<and> ?l \<le> 1" using one_minus_normalize_range by simp
  have "calculate_performance_score a cs = (6 / 10) * ?t + (4 / 10) * ?l"
    by (simp add: calculate_performance_score_def Let_def)
  then show ?thesis using weighted2 [of ?t ?l] t l by presburger
qed

lemma uptime_score_range:
  fixes u T :: real
  assumes "0 < u" "u \<le> T"
  shows "0 \<le> u / max 1 T \<and> u / max 1 T \<le> 1"
proof -
  have "u \<le> max 1 T" "0 < max 1 T" using assms by simp_all
  then show ?thesis using assms(1) by simp
qed

lemma reliability_score_range:
  assumes "0 < uptime_hours (metrics a)" "uptime_hours (metrics a) \<le> total_hours (metrics a)"
  shows "0 \<le> calculate_reliability_score a cs \<and> calculate_reliability_score a cs \<le> 1"
proof -
  let ?u = "uptime_hours (metrics a) / max 1 (total_hours (metrics a))"
  let ?rs = "filter (\<lambda>t. t > 0) (map (\<lambda>acc. recovery_time_avg (metrics acc)) cs)"
  let ?e = "if ?rs \<noteq> []
             then 1 - normalize_value (recovery_time_avg (metrics a)) (py_min ?rs) (py_max ?rs)
             else 1 / 2"
  have u: "0 \<le> ?u \<and> ?u \<le> 1" using uptime_score_range assms by simp
  have e: "0 \<le> ?e \<and> ?e \<le> 1" using one_minus_normalize_range by simp
  have "calculate_reliability_score a cs = (6 / 10) * ?u + (4 / 10) * ?e"
    by (simp add: calculate_reliability_score_def Let_def)
  then show ?thesis using weighted2 [of ?u ?e] u e by presburger
qed

text \<open>
  Claim C8. For an account and a candidate list whose metrics satisfy the
  preconditions of the data model, the composite score
  \<open>0.4 * cost + 0.3 * health + 0.2 * performance + 0.1 * reliability\<close> lies in \<open>[0, 1]\<close>.
\<close>

theorem composite_score_range:
  assumes "metrics_ok account" and "\<forall>c \<in> set all_accounts. metrics_ok c"
  shows "0 \<le> calculate_account_score account all_accounts
       \<and> calculate_account_score account all_accounts \<le> 1"
proof -
  from assms(1) have sr: "0 \<le> success_rate (metrics account)" "success_rate (metrics account) \<le> 1"
    and up: "0 < uptime_hours (metrics account)"
            "uptime_hours (metrics account) \<le> total_hours (metrics account)"
    by (simp_all add: metrics_ok_def Let_def)
  note c = cost_score_range [of account all_accounts]
  note h = health_score_range [OF sr, of all_accounts]
  note p = performance_score_range [of account all_accounts]
  note r = reliability_score_range [OF up, of all_accounts]
  show ?thesis
    unfolding calculate_account_score_def w_cost_def w_health_def w_performance_def w_reliability_def
    using c h p r by simp
qed

lemma acc1_ok: "metrics_ok acc1"
  by (simp add: metrics_ok_def acc1_def mk_account_def Let_def)

lemma acc2_ok: "metrics_ok acc2"
  by (simp add: metrics_ok_def acc2_def mk_account_def Let_def)

lemma acc3_ok: "metrics_ok acc3"
  by (simp add: metrics_ok_def acc3_def mk_account_def Let_def)

theorem composite_score_range_witness:
  "metrics_ok acc1 \<and> metrics_ok acc2 \<and> metrics_ok acc3
   \<and> 0 \<le> calculate_account_score acc1 [acc1, acc2, acc3]
   \<and> calculate_account_score acc1 [acc1, acc2, acc3] \<le> 1"
proof -
  have all: "\<forall>c \<in> set [acc1, acc2, acc3]. metrics_ok c"
    using acc1_ok acc2_ok acc3_ok by simp
  show ?thesis
    using acc1_ok acc2_ok acc3_ok composite_score_range [OF acc1_ok all] by simp
qed

text \<open>
  Claim C7. The cost score is 0.5 for an account with no requests; it is 0.5 when
  fewer than two candidates have requests; otherwise it is one minus the account's
  cost per request normalised between the least and the greatest cost per request of
  the candidates with requests. Hence, against one candidate list, an account
  strictly cheaper per request never scores lower.
\<close>

theorem cost_score_cases:
  "(daily_requests (metrics account) = 0 \<longrightarrow> calculate_cost_score account all_accounts = 1 / 2)
   \<and> (length (filter (\<lambda>acc. daily_requests (metrics acc) > 0) all_accounts) < 2 \<longrightarrow>
        calculate_cost_score account all_accounts = 1 / 2)
   \<and> (daily_requests (metrics account) \<noteq> 0
        \<and> length (filter (\<lambda>acc. daily_requests (metrics acc) > 0) all_accounts) \<ge> 2 \<longrightarrow>
        calculate_cost_score account all_accounts =
          1 - normalize_value
                (daily_cost (metrics account) / real_of_int (daily_requests (metrics account)))
                (Min ((\<lambda>acc. daily_cost (metrics acc) / real_of_int (daily_requests (metrics acc)))
                        ` {acc \<in> set all_accounts. daily_requests (metrics acc) > 0}))
                (Max ((\<lambda>acc. daily_cost (metrics acc) / real_of_int (daily_requests (metrics acc)))
                        ` {acc \<in> set all_accounts. daily_requests (metrics acc) > 0})))
   \<and> (daily_requests (metrics account) \<noteq> 0 \<and> daily_requests (metrics other) \<noteq> 0
        \<and> daily_cost (metrics account) / real_of_int (daily_requests (metrics account))
            < daily_cost (metrics other) / real_of_int (daily_requests (metrics other)) \<longrightarrow>
        calculate_cost_score other all_accounts \<le> calculate_cost_score account all_accounts)"
proof -
  let ?pos = "filter (\<lambda>acc. daily_requests (metrics acc) > 0) all_accounts"
  let ?cs = "all_costs all_accounts"
  have len: "length ?cs = length ?pos" by (simp add: all_costs_def)
  have c1: "daily_requests (metrics account) = 0 \<Longrightarrow> calculate_cost_score account all_accounts = 1 / 2"
    by (simp add: calculate_cost_score_def)
  have c2: "length ?pos < 2 \<Longrightarrow> calculate_cost_score account all_accounts = 1 / 2"
    using len by (simp add: calculate_cost_score_def Let_def)
  have setcs: "set ?cs = (\<lambda>acc. daily_cost (metrics acc) / real_of_int (daily_requests (metrics acc)))
                        ` {acc \<in> set all_accounts. daily_requests (metrics acc) > 0}"
    by (auto simp: all_costs_def cost_per_request_def)
  have c3: "calculate_cost_score a all_accounts =
          1 - normalize_value (cost_per_request a) (Min (set ?cs)) (Max (set ?cs))"
    if "daily_requests (metrics a) \<noteq> 0" "length ?pos \<ge> 2" for a
  proof -
    from that(2) len have ne: "?cs \<noteq> []" "\<not> length ?cs < 2" by auto
    then show ?thesis using that(1)
      by (simp add: calculate_cost_score_def Let_def py_min_Min py_max_Max)
  qed
  have c4: "calculate_cost_score other all_accounts \<le> calculate_cost_score account all_accounts"
    if nz: "daily_requests (metrics account) \<noteq> 0" "daily_requests (metrics other) \<noteq> 0"
      and lt: "cost_per_request account < cost_per_request other"
  proof (cases "length ?pos \<ge> 2")
    case True
    then have ne: "?cs \<noteq> []" using len by auto
    have "Min (set ?cs) \<le> Max (set ?cs)"
      using py_min_le_py_max [OF ne] ne by (simp add: py_min_Min py_max_Max)
    then have "normalize_value (cost_per_request account) (Min (set ?cs)) (Max (set ?cs))
            \<le> normalize_value (cost_per_request other) (Min (set ?cs)) (Max (set ?cs))"
      using lt by (intro normalize_value_mono) simp_all
    then show ?thesis using c3 [OF nz(1) True] c3 [OF nz(2) True] by simp
  next
    case False
    then have "length ?pos < 2" by simp
    then have h: "calculate_cost_score a all_accounts = 1 / 2" for a
      using len by (simp add: calculate_cost_score_def Let_def)
    show ?thesis unfolding h [of account] h [of other] by simp
  qed
  show ?thesis
    using c1 c2 c3 [of account] c4 unfolding setcs cost_per_request_def by blast
qed

theorem cost_score_cases_witness:
  "daily_requests (metrics acc_new) = 0
   \<and> calculate_cost_score acc_new [acc1, acc2, acc3] = 1 / 2
   \<and> length (filter (\<lambda>acc. daily_requests (metrics acc) > 0) [acc1, acc_new]) < 2
   \<and> calculate_cost_score acc1 [acc1, acc_new] = 1 / 2
   \<and> daily_requests (metrics acc1) \<noteq> 0 \<and> daily_requests (metrics acc2) \<noteq> 0
   \<and> length (filter (\<lambda>acc. daily_requests (metrics acc) > 0) [acc1, acc2, acc3]) \<ge> 2
   \<and> daily_cost (metrics acc1) / real_of_int (daily_requests (metrics acc1))
       < daily_cost (metrics acc2) / real_of_int (daily_requests (metrics acc2))
   \<and> calculate_cost_score acc2 [acc1, acc2, acc3] \<le> calculate_cost_score acc1 [acc1, acc2, acc3]"
proof -
  have a: "daily_requests (metrics acc_new) = 0"
    and b: "length (filter (\<lambda>acc. daily_requests (metrics acc) > 0) [acc1, acc_new]) < 2"
    and c: "daily_requests (metrics acc1) \<noteq> 0" "daily_requests (metrics acc2) \<noteq> 0"
    and d: "length (filter (\<lambda>acc. daily_requests (metrics acc) > 0) [acc1, acc2, acc3]) \<ge> 2"
    and e: "daily_cost (metrics acc1) / real_of_int (daily_requests (metrics acc1))
       < daily_cost (metrics acc2) / real_of_int (daily_requests (metrics acc2))"
    by (simp_all add: acc1_def acc2_def acc3_def acc_new_def mk_account_def)
  show ?thesis
    using a b c d e
      cost_score_cases [of acc_new "[acc1, acc2, acc3]" acc_new]
      cost_score_cases [of acc1 "[acc1, acc_new]" acc1]
      cost_score_cases [of acc1 "[acc1, acc2, acc3]" acc2]
    by simp
qed

section \<open>The example accounts evaluated\<close>

lemmas score_defs = calculate_account_score_def calculate_cost_score_def calculate_health_score_def
  calculate_performance_score_def calculate_reliability_score_def normalize_value_def
  all_costs_def cost_per_request_def w_cost_def w_health_def w_performance_def w_reliability_def

lemma acc1_score: "calculate_account_score acc1 [acc1, acc2, acc3] = 8176 / 10000"
  by (simp add: score_defs acc1_def acc2_def acc3_def mk_account_def Let_def)

lemma acc2_score: "calculate_account_score acc2 [acc1, acc2, acc3] = 4776 / 10000"
  by (simp add: score_defs acc1_def acc2_def acc3_def mk_account_def Let_def)

lemma acc3_score: "calculate_account_score acc3 [acc1, acc2, acc3] = 5588 / 10000"
  by (simp add: score_defs acc1_def acc2_def acc3_def mk_account_def Let_def)

lemma example_active: "filter (\<lambda>acc. status acc = ''active'') [acc1, acc2, acc3] = [acc1, acc2, acc3]"
  by (simp add: acc1_def acc2_def acc3_def mk_account_def)

lemma example_ids: "acc_id acc1 = ''acc1''" "acc_id acc2 = ''acc2''" "acc_id acc3 = ''acc3''"
  by (simp_all add: acc1_def acc2_def acc3_def mk_account_def)

lemma example_status: "status acc1 = ''active''" "status acc2 = ''active''" "status acc3 = ''active''"
  by (simp_all add: acc1_def acc2_def acc3_def mk_account_def)

section \<open>Smooth weighted round robin\<close>

lemma update_weights_weight_of: "weight_of (update_weights w xs h) i = weight_of w i"
  by (induction xs arbitrary: w) (auto simp: weight_of_def Let_def dom_def)

lemma update_weights_dom_mono:
  "i \<in> dom (current_weights w) \<Longrightarrow> i \<in> dom (current_weights (update_weights w xs h))"
  by (induction xs arbitrary: w) (auto simp: Let_def)

lemma update_weights_dom:
  "a \<in> set xs \<Longrightarrow> acc_id a \<in> dom (current_weights (update_weights w xs h))"
proof (induction xs arbitrary: w)
  case Nil
  then show ?case by simp
next
  case (Cons x xs)
  show ?case
  proof (cases "a \<in> set xs")
    case True
    then show ?thesis using Cons.IH by (simp add: Let_def)
  next
    case False
    with Cons.prems have "a = x" by simp
    then show ?thesis
      by (auto simp: Let_def intro!: update_weights_dom_mono)
  qed
qed

lemma scan_weights_total [simp]:
  "total_weights (fst (scan_weights w m s xs)) = total_weights w"
  by (induction xs arbitrary: w m s) (simp_all add: Let_def)

lemma scan_weights_weight_of:
  "\<forall>a \<in> set xs. acc_id a \<in> dom (current_weights w) \<Longrightarrow>
   weight_of (fst (scan_weights w m s xs)) i
     = weight_of w i + int (count_list (map acc_id xs) i) * the (total_weights w i)"
proof (induction xs arbitrary: w m s)
  case Nil
  then show ?case by simp
next
  case (Cons x xs)
  let ?cw = "the (current_weights w (acc_id x)) + the (total_weights w (acc_id x))"
  let ?w1 = "w\<lparr>current_weights := (current_weights w)(acc_id x \<mapsto> ?cw)\<rparr>"
  have dom1: "\<forall>a \<in> set xs. acc_id a \<in> dom (current_weights ?w1)"
    using Cons.prems by auto
  have tw1: "total_weights ?w1 = total_weights w" by simp
  from Cons.prems obtain v where v: "current_weights w (acc_id x) = Some v" by auto
  have w1: "weight_of ?w1 i = weight_of w i + (if acc_id x = i then the (total_weights w i) else 0)"
    using v by (auto simp: weight_of_def)
  have "weight_of (fst (scan_weights w m s (x # xs))) i
      = weight_of ?w1 i + int (count_list (map acc_id xs) i) * the (total_weights ?w1 i)"
    using Cons.IH [OF dom1] by (simp add: Let_def)
  then show ?case unfolding w1 tw1 by (simp add: algebra_simps)
qed

lemma scan_weights_selected:
  "snd (snd (scan_weights w m s xs)) = Some a \<Longrightarrow> s = Some a \<or> a \<in> set xs"
proof (induction xs arbitrary: w m s)
  case Nil
  then show ?case by simp
next
  case (Cons x xs)
  then show ?case by (fastforce simp: Let_def split: if_splits)
qed

lemma scan_weights_none:
  "snd (snd (scan_weights w m s xs)) = None \<Longrightarrow> s = None \<and> fst (snd (scan_weights w m s xs)) = m"
proof (induction xs arbitrary: w m s)
  case Nil
  then show ?case by simp
next
  case (Cons x xs)
  let ?cw = "the (current_weights w (acc_id x)) + the (total_weights w (acc_id x))"
  let ?w1 = "w\<lparr>current_weights := (current_weights w)(acc_id x \<mapsto> ?cw)\<rparr>"
  show ?case
  proof (cases "?cw > m")
    case True
    with Cons.prems have "snd (snd (scan_weights ?w1 ?cw (Some x) xs)) = None"
      by (simp add: Let_def)
    from Cons.IH [OF this] show ?thesis by simp
  next
    case False
    with Cons.prems have "snd (snd (scan_weights ?w1 m s xs)) = None"
      by (simp add: Let_def)
    from Cons.IH [OF this] False show ?thesis by (auto simp: Let_def)
  qed
qed

lemma scan_weights_max_mono: "m \<le> fst (snd (scan_weights w m s xs))"
proof (induction xs arbitrary: w m s)
  case Nil
  then show ?case by simp
next
  case (Cons x xs)
  let ?cw = "the (current_weights w (acc_id x)) + the (total_weights w (acc_id x))"
  let ?w1 = "w\<lparr>current_weights := (current_weights w)(acc_id x \<mapsto> ?cw)\<rparr>"
  show ?case
  proof (cases "?cw > m")
    case True
    then show ?thesis using Cons.IH [of ?cw ?w1 "Some x"] by (simp add: Let_def)
  next
    case False
    then show ?thesis using Cons.IH [of m ?w1 s] by (simp add: Let_def)
  qed
qed

lemma scan_weights_other:
  "i \<notin> acc_id ` set xs \<Longrightarrow>
   current_weights (fst (scan_weights w m s xs)) i = current_weights w i"
  by (induction xs arbitrary: w m s) (auto simp: Let_def)

lemma scan_weights_bound:
  "a \<in> set xs \<Longrightarrow>
   weight_of (fst (scan_weights w m s xs)) (acc_id a) \<le> fst (snd (scan_weights w m s xs))"
proof (induction xs arbitrary: w m s a)
  case Nil
  then show ?case by simp
next
  case (Cons x xs)
  let ?cw = "the (current_weights w (acc_id x)) + the (total_weights w (acc_id x))"
  let ?w1 = "w\<lparr>current_weights := (current_weights w)(acc_id x \<mapsto> ?cw)\<rparr>"
  let ?m1 = "if ?cw > m then ?cw else m"
  let ?s1 = "if ?cw > m then Some x else s"
  have step: "scan_weights w m s (x # xs) = scan_weights ?w1 ?m1 ?s1 xs"
    by (simp add: Let_def)
  show ?case
  proof (cases "acc_id a \<in> acc_id ` set xs")
    case True
    then obtain b where b: "b \<in> set xs" "acc_id b = acc_id a" by auto
    from Cons.IH [OF b(1), of ?w1 ?m1 ?s1] show ?thesis unfolding step b(2) .
  next
    case False
    then have "a \<notin> set xs" by auto
    with Cons.prems have ax: "a = x" by simp
    from scan_weights_other [OF False, of ?w1 ?m1 ?s1]
    have "weight_of (fst (scan_weights ?w1 ?m1 ?s1 xs)) (acc_id a) = ?cw"
      by (simp add: weight_of_def ax)
    moreover have "?cw \<le> ?m1" by simp
    moreover have "?m1 \<le> fst (snd (scan_weights ?w1 ?m1 ?s1 xs))"
      by (rule scan_weights_max_mono)
    ultimately show ?thesis unfolding step by linarith
  qed
qed

lemma count_weighted_sum:
  fixes f :: "'a \<Rightarrow> int"
  assumes "finite S"
  shows "set xs \<subseteq> S \<Longrightarrow> (\<Sum>i\<in>S. int (count_list xs i) * f i) = sum_list (map f xs)"
proof (induction xs)
  case Nil
  then show ?case by simp
next
  case (Cons x xs)
  then have xS: "x \<in> S" and sub: "set xs \<subseteq> S" by simp_all
  have "(\<Sum>i\<in>S. int (count_list (x # xs) i) * f i)
      = (\<Sum>i\<in>S. int (count_list xs i) * f i + (if x = i then f i else 0))"
    by (intro sum.cong) (auto simp: algebra_simps)
  also have "\<dots> = (\<Sum>i\<in>S. int (count_list xs i) * f i) + (\<Sum>i\<in>S. if x = i then f i else 0)"
    by (simp add: sum.distrib)
  also have "(\<Sum>i\<in>S. if x = i then f i else 0) = f x"
    using assms xS by (simp add: sum.delta')
  finally show ?case using Cons.IH [OF sub] by simp
qed

lemma select_unfold:
  assumes "fst (WeightedRoundRobin_select_account w accounts) = Some sel"
  defines "hs \<equiv> filter (\<lambda>acc. status acc = ''active'') accounts"
  defines "w1 \<equiv> update_weights w hs hs"
  defines "w2 \<equiv> fst (scan_weights w1 (- 1) None hs)"
  shows "sel \<in> set hs"
    and "snd (WeightedRoundRobin_select_account w accounts)
         = w2\<lparr>current_weights := (current_weights w2)
               (acc_id sel \<mapsto> the (current_weights w2 (acc_id sel)) - wrr_total w2 accounts)\<rparr>"
proof -
  from assms(1) have ne: "accounts \<noteq> []" "hs \<noteq> []"
    by (auto simp: WeightedRoundRobin_select_account_def hs_def Let_def split: if_splits)
  obtain w2' mx s' where sc: "scan_weights w1 (- 1) None hs = (w2', mx, s')"
    by (cases "scan_weights w1 (- 1) None hs") auto
  then have w2: "w2' = w2" by (simp add: w2_def)
  from assms(1) ne sc have s': "s' = Some sel"
    by (auto simp: WeightedRoundRobin_select_account_def hs_def [symmetric] w1_def [symmetric]
        Let_def split: option.splits)
  from scan_weights_selected [of w1 "- 1" None hs sel] sc s'
  show "sel \<in> set hs" by simp
  show "snd (WeightedRoundRobin_select_account w accounts)
         = w2\<lparr>current_weights := (current_weights w2)
               (acc_id sel \<mapsto> the (current_weights w2 (acc_id sel)) - wrr_total w2 accounts)\<rparr>"
    using ne sc s' w2
    by (simp add: WeightedRoundRobin_select_account_def hs_def [symmetric] w1_def [symmetric]
        Let_def wrr_total_def)
qed

lemma select_total_weights:
  "fst (WeightedRoundRobin_select_account w accounts) = Some sel \<Longrightarrow>
   total_weights (snd (WeightedRoundRobin_select_account w accounts))
     = total_weights (update_weights w (filter (\<lambda>acc. status acc = ''active'') accounts)
                        (filter (\<lambda>acc. status acc = ''active'') accounts))"
  by (simp add: select_unfold(2))

text \<open>Every current weight after a call that returns \<open>sel\<close>.\<close>

lemma select_weight_of:
  assumes r: "fst (WeightedRoundRobin_select_account w accounts) = Some sel"
  defines "w' \<equiv> snd (WeightedRoundRobin_select_account w accounts)"
  shows "weight_of w' i
       = weight_of w i
         + int (count_list (map acc_id (filter (\<lambda>acc. status acc = ''active'') accounts)) i)
           * the (total_weights w' i)
         - (if i = acc_id sel then wrr_total w' accounts else 0)"
proof -
  let ?hs = "filter (\<lambda>acc. status acc = ''active'') accounts"
  let ?w1 = "update_weights w ?hs ?hs"
  let ?w2 = "fst (scan_weights ?w1 (- 1) None ?hs)"
  have dom1: "\<forall>a \<in> set ?hs. acc_id a \<in> dom (current_weights ?w1)"
    using update_weights_dom by blast
  have tw: "total_weights w' = total_weights ?w1"
    unfolding w'_def using select_total_weights [OF r] .
  have tot: "wrr_total w' accounts = wrr_total ?w2 accounts"
    by (simp add: wrr_total_def tw)
  have w2: "weight_of ?w2 i = weight_of w i + int (count_list (map acc_id ?hs) i) * the (total_weights w' i)"
    using scan_weights_weight_of [OF dom1, of "- 1" None i]
    by (simp add: update_weights_weight_of tw)
  from select_unfold(1) [OF r] have "acc_id sel \<in> acc_id ` set ?hs" by blast
  have uf: "w' = ?w2\<lparr>current_weights := (current_weights ?w2)
               (acc_id sel \<mapsto> the (current_weights ?w2 (acc_id sel)) - wrr_total ?w2 accounts)\<rparr>"
    unfolding w'_def using select_unfold(2) [OF r] .
  have sel_dom: "acc_id sel \<in> dom (current_weights ?w2)"
  proof -
    have "weight_of ?w2 (acc_id sel) = weight_of ?w2 (acc_id sel)" ..
    obtain mx s' where sc: "scan_weights ?w1 (- 1) None ?hs = (?w2, mx, s')"
      by (cases "scan_weights ?w1 (- 1) None ?hs") auto
    have "i \<in> dom (current_weights w0) \<Longrightarrow> i \<in> dom (current_weights (fst (scan_weights w0 m s xs)))"
      for i w0 m s xs
      by (induction xs arbitrary: w0 m s) (auto simp: Let_def)
    then show ?thesis using dom1 select_unfold(1) [OF r] by blast
  qed
  then obtain v where v: "current_weights ?w2 (acc_id sel) = Some v" by auto
  have "weight_of w' i = weight_of ?w2 i - (if i = acc_id sel then wrr_total ?w2 accounts else 0)"
    by (subst uf) (simp add: weight_of_def v)
  then show ?thesis unfolding w2 tot by simp
qed

lemma finite_active_ids [simp]: "finite (active_ids accounts)"
  by (simp add: active_ids_def)

lemma select_weight_sum:
  assumes r: "fst (WeightedRoundRobin_select_account w accounts) = Some sel"
  shows "weight_sum (snd (WeightedRoundRobin_select_account w accounts)) (active_ids accounts)
       = weight_sum w (active_ids accounts)"
proof -
  let ?w' = "snd (WeightedRoundRobin_select_account w accounts)"
  let ?hs = "filter (\<lambda>acc. status acc = ''active'') accounts"
  let ?S = "active_ids accounts"
  let ?f = "\<lambda>i. the (total_weights ?w' i)"
  have S: "?S = set (map acc_id ?hs)" by (simp add: active_ids_def)
  have selS: "acc_id sel \<in> ?S" using select_unfold(1) [OF r] by (auto simp: active_ids_def)
  have cnt: "(\<Sum>i\<in>?S. int (count_list (map acc_id ?hs) i) * ?f i) = sum_list (map ?f (map acc_id ?hs))"
    by (rule count_weighted_sum) (simp_all add: S)
  have tot: "sum_list (map ?f (map acc_id ?hs)) = wrr_total ?w' accounts"
    by (simp add: wrr_total_def comp_def)
  have "weight_sum ?w' ?S
      = (\<Sum>i\<in>?S. weight_of w i + int (count_list (map acc_id ?hs) i) * ?f i
                   - (if i = acc_id sel then wrr_total ?w' accounts else 0))"
    unfolding weight_sum_def by (intro sum.cong refl select_weight_of [OF r])
  also have "\<dots> = weight_sum w ?S + (\<Sum>i\<in>?S. int (count_list (map acc_id ?hs) i) * ?f i)
                   - (\<Sum>i\<in>?S. if i = acc_id sel then wrr_total ?w' accounts else 0)"
    by (simp add: sum_subtractf sum.distrib weight_sum_def)
  also have "(\<Sum>i\<in>?S. if i = acc_id sel then wrr_total ?w' accounts else 0) = wrr_total ?w' accounts"
    using selS by (simp add: sum.delta)
  finally show ?thesis using cnt tot by simp
qed

text \<open>With a non-negative sum over a non-empty candidate set, the scan finds a winner.\<close>

lemma update_weights_total_pos_mono:
  "(\<exists>v. total_weights w i = Some v \<and> 1 \<le> v) \<Longrightarrow>
   (\<exists>v. total_weights (update_weights w xs h) i = Some v \<and> 1 \<le> v)"
  by (induction xs arbitrary: w) (auto simp: Let_def)

lemma update_weights_total_pos:
  "a \<in> set xs \<Longrightarrow> \<exists>v. total_weights (update_weights w xs h) (acc_id a) = Some v \<and> 1 \<le> v"
proof (induction xs arbitrary: w)
  case Nil
  then show ?case by simp
next
  case (Cons x xs)
  show ?case
  proof (cases "a \<in> set xs")
    case True
    then show ?thesis using Cons.IH by (simp add: Let_def)
  next
    case False
    with Cons.prems have "a = x" by simp
    then show ?thesis
      by (auto simp: Let_def intro!: update_weights_total_pos_mono)
  qed
qed

lemma select_returns:
  assumes ne: "active_ids accounts \<noteq> {}"
    and nonneg: "0 \<le> weight_sum w (active_ids accounts)"
  shows "fst (WeightedRoundRobin_select_account w accounts) \<noteq> None"
proof
  assume none: "fst (WeightedRoundRobin_select_account w accounts) = None"
  let ?hs = "filter (\<lambda>acc. status acc = ''active'') accounts"
  let ?S = "active_ids accounts"
  let ?w1 = "update_weights w ?hs ?hs"
  let ?sc = "scan_weights ?w1 (- 1) None ?hs"
  let ?w2 = "fst ?sc"
  from ne have hne1: "?hs \<noteq> []" by (auto simp: active_ids_def filter_empty_conv)
  then have hne: "?hs \<noteq> []" "accounts \<noteq> []" by auto
  obtain w2' mx s' where sc: "?sc = (w2', mx, s')" by (cases ?sc) auto
  from none hne sc have "s' = None"
    by (auto simp: WeightedRoundRobin_select_account_def Let_def split: option.splits)
  with sc scan_weights_none [of ?w1 "- 1" None ?hs] have mx: "fst (snd ?sc) = - 1" by simp
  have le: "weight_of ?w2 i \<le> - 1" if "i \<in> ?S" for i
  proof -
    from that obtain a where "a \<in> set ?hs" "acc_id a = i" by (auto simp: active_ids_def)
    with scan_weights_bound [of a ?hs ?w1 "- 1" None] mx show ?thesis by simp
  qed
  have dom1: "\<forall>a \<in> set ?hs. acc_id a \<in> dom (current_weights ?w1)"
    using update_weights_dom by blast
  have ge: "weight_of w i \<le> weight_of ?w2 i" if "i \<in> ?S" for i
  proof -
    from that obtain a where a: "a \<in> set ?hs" "acc_id a = i" by (auto simp: active_ids_def)
    from update_weights_total_pos [OF a(1), of w ?hs] a(2)
    have "0 \<le> the (total_weights ?w1 i)" by auto
    then have "0 \<le> int (count_list (map acc_id ?hs) i) * the (total_weights ?w1 i)" by simp
    then show ?thesis
      using scan_weights_weight_of [OF dom1, of "- 1" None i]
      by (simp add: update_weights_weight_of)
  qed
  have "weight_sum w ?S \<le> (\<Sum>i\<in>?S. - 1)"
    unfolding weight_sum_def using le ge by (intro sum_mono) force
  also have "\<dots> = - int (card ?S)" by simp
  also have "\<dots> < 0" using ne by (simp add: card_gt_0_iff)
  finally show False using nonneg by simp
qed

lemma select_none_unchanged_sum:
  "active_ids accounts = {} \<Longrightarrow> WeightedRoundRobin_select_account w accounts = (None, w)"
  by (auto simp: WeightedRoundRobin_select_account_def active_ids_def Let_def)

lemma select_all_zero:
  "\<forall>accounts \<in> set calls. active_ids accounts = ids \<Longrightarrow> weight_sum w ids = 0 \<Longrightarrow>
   weight_sum (select_all w calls) ids = 0"
proof (induction calls arbitrary: w)
  case Nil
  then show ?case by simp
next
  case (Cons accounts calls)
  then have ids: "active_ids accounts = ids" by simp
  have "weight_sum (snd (WeightedRoundRobin_select_account w accounts)) ids = 0"
  proof (cases "ids = {}")
    case True
    then show ?thesis by (simp add: weight_sum_def)
  next
    case False
    with ids Cons.prems(2) select_returns [of accounts w]
    obtain sel where "fst (WeightedRoundRobin_select_account w accounts) = Some sel" by auto
    from select_weight_sum [OF this] ids Cons.prems(2) show ?thesis by simp
  qed
  with Cons show ?case by simp
qed

text \<open>
  Claim C9. A call of the weighted round robin that returns an account leaves the sum
  of the current weights over the ids of the active candidates unchanged: the current
  weight of every id gains its total weight once for each active candidate carrying
  that id, and the winner's loses the sum of the candidates' total weights. With a
  sum of 0 over a non-empty candidate set the call does return an account, so from
  the initial state, over any sequence of calls with one set of active ids, the sum
  stays 0.
\<close>

theorem wrr_weight_sum_invariant:
  "(fst (WeightedRoundRobin_select_account w accounts) = Some sel \<longrightarrow>
      weight_sum (snd (WeightedRoundRobin_select_account w accounts)) (active_ids accounts)
        = weight_sum w (active_ids accounts)
      \<and> (\<forall>i. weight_of (snd (WeightedRoundRobin_select_account w accounts)) i
             = weight_of w i
               + int (count_list (map acc_id (filter (\<lambda>acc. status acc = ''active'') accounts)) i)
                 * the (total_weights (snd (WeightedRoundRobin_select_account w accounts)) i)
               - (if i = acc_id sel
                  then wrr_total (snd (WeightedRoundRobin_select_account w accounts)) accounts
                  else 0)))
   \<and> (active_ids accounts \<noteq> {} \<and> weight_sum w (active_ids accounts) = 0 \<longrightarrow>
        fst (WeightedRoundRobin_select_account w accounts) \<noteq> None)
   \<and> ((\<forall>accounts \<in> set calls. active_ids accounts = ids) \<longrightarrow>
        weight_sum (select_all WeightedRoundRobin_init calls) ids = 0)"
proof -
  have z: "weight_sum WeightedRoundRobin_init ids = 0"
    by (simp add: weight_sum_def weight_of_def WeightedRoundRobin_init_def)
  show ?thesis
    using select_weight_sum [of w accounts sel] select_weight_of [of w accounts sel]
      select_returns [of accounts w] select_all_zero [OF _ z, of calls]
    by simp
qed

lemma wrr_example_weights:
  "update_weights WeightedRoundRobin_init [acc1, acc2, acc3] [acc1, acc2, acc3]
     = \<lparr>current_weights = [''acc1'' \<mapsto> 0, ''acc2'' \<mapsto> 0, ''acc3'' \<mapsto> 0],
        total_weights = [''acc1'' \<mapsto> 81, ''acc2'' \<mapsto> 47, ''acc3'' \<mapsto> 55]\<rparr>"
  by (simp add: acc1_score acc2_score acc3_score example_ids py_int_def Let_def WeightedRoundRobin_init_def)

lemma wrr_example_scan:
  "scan_weights \<lparr>current_weights = [''acc1'' \<mapsto> 0, ''acc2'' \<mapsto> 0, ''acc3'' \<mapsto> 0],
        total_weights = [''acc1'' \<mapsto> 81, ''acc2'' \<mapsto> 47, ''acc3'' \<mapsto> 55]\<rparr> (- 1) None [acc1, acc2, acc3]
   = (\<lparr>current_weights = [''acc1'' \<mapsto> 81, ''acc2'' \<mapsto> 47, ''acc3'' \<mapsto> 55],
        total_weights = [''acc1'' \<mapsto> 81, ''acc2'' \<mapsto> 47, ''acc3'' \<mapsto> 55]\<rparr>, 81, Some acc1)"
  by (simp add: example_ids Let_def fun_upd_twist)


lemma wrr_first_call:
  "WeightedRoundRobin_select_account WeightedRoundRobin_init [acc1, acc2, acc3]
   = (Some acc1,
      \<lparr>current_weights = [''acc1'' \<mapsto> - 102, ''acc2'' \<mapsto> 47, ''acc3'' \<mapsto> 55],
        total_weights = [''acc1'' \<mapsto> 81, ''acc2'' \<mapsto> 47, ''acc3'' \<mapsto> 55]\<rparr>)"
proof -
  have "WeightedRoundRobin_select_account WeightedRoundRobin_init [acc1, acc2, acc3]
      = (let w1 = update_weights WeightedRoundRobin_init [acc1, acc2, acc3] [acc1, acc2, acc3];
             (w2, max_current_weight, selected_account) = scan_weights w1 (- 1) None [acc1, acc2, acc3]
         in case selected_account of
              None \<Rightarrow> (None, w2)
            | Some sel \<Rightarrow>
                (Some sel,
                 w2\<lparr>current_weights := (current_weights w2)
                      (acc_id sel \<mapsto> the (current_weights w2 (acc_id sel))
                          - sum_list (map (\<lambda>acc. the (total_weights w2 (acc_id acc))) [acc1, acc2, acc3]))\<rparr>))"
    by (simp add: WeightedRoundRobin_select_account_def example_status Let_def del: update_weights.simps scan_weights.simps)
  also have "\<dots> = (Some acc1,
      \<lparr>current_weights = [''acc1'' \<mapsto> - 102, ''acc2'' \<mapsto> 47, ''acc3'' \<mapsto> 55],
        total_weights = [''acc1'' \<mapsto> 81, ''acc2'' \<mapsto> 47, ''acc3'' \<mapsto> 55]\<rparr>)"
    unfolding wrr_example_weights by (simp add: wrr_example_scan example_ids fun_upd_twist)
  finally show ?thesis .
qed

lemma wrr_ids: "active_ids [acc1, acc2, acc3] = {''acc1'', ''acc2'', ''acc3''}"
  by (simp add: active_ids_def example_status example_ids)

theorem wrr_weight_sum_invariant_witness:
  "fst (WeightedRoundRobin_select_account WeightedRoundRobin_init [acc1, acc2, acc3]) = Some acc1
   \<and> active_ids [acc1, acc2, acc3] \<noteq> {}
   \<and> weight_sum WeightedRoundRobin_init (active_ids [acc1, acc2, acc3]) = 0
   \<and> weight_sum (snd (WeightedRoundRobin_select_account WeightedRoundRobin_init [acc1, acc2, acc3]))
         (active_ids [acc1, acc2, acc3]) = 0
   \<and> weight_of (snd (WeightedRoundRobin_select_account WeightedRoundRobin_init [acc1, acc2, acc3]))
         ''acc1'' = 81 - (81 + 47 + 55)
   \<and> weight_sum (select_all WeightedRoundRobin_init ([acc1, acc2, acc3] # [acc1, acc2, acc3] # []))
         (active_ids [acc1, acc2, acc3]) = 0"
proof -
  have r: "fst (WeightedRoundRobin_select_account WeightedRoundRobin_init [acc1, acc2, acc3]) = Some acc1"
    by (simp add: wrr_first_call)
  have z: "weight_sum WeightedRoundRobin_init (active_ids [acc1, acc2, acc3]) = 0"
    by (simp add: weight_sum_def weight_of_def WeightedRoundRobin_init_def)
  have n: "active_ids [acc1, acc2, acc3] \<noteq> {}"
    by (simp add: wrr_ids)
  have w: "weight_of (snd (WeightedRoundRobin_select_account WeightedRoundRobin_init [acc1, acc2, acc3]))
         ''acc1'' = 81 - (81 + 47 + 55)"
    by (simp add: wrr_first_call weight_of_def)
  show ?thesis
    using r z n w
      wrr_weight_sum_invariant [of WeightedRoundRobin_init "[acc1, acc2, acc3]" acc1
        "([acc1, acc2, acc3] # [acc1, acc2, acc3] # [])" "active_ids [acc1, acc2, acc3]"]
    by simp
qed

section \<open>The composite-intelligent strategy\<close>

lemma fold_score_other:
  "i \<notin> acc_id ` set xs \<Longrightarrow>
   fold (\<lambda>account scores. scores(acc_id account \<mapsto> f account)) xs m i = m i"
  by (induction xs arbitrary: m) auto

lemma fold_score_distinct:
  "distinct (map acc_id xs) \<Longrightarrow> a \<in> set xs \<Longrightarrow>
   fold (\<lambda>account scores. scores(acc_id account \<mapsto> f account)) xs m (acc_id a) = Some (f a)"
proof (induction xs arbitrary: m)
  case Nil
  then show ?case by simp
next
  case (Cons x xs)
  show ?case
  proof (cases "a = x")
    case True
    with Cons.prems have "acc_id x \<notin> acc_id ` set xs" by auto
    from fold_score_other [OF this, of f "m(acc_id x \<mapsto> f x)"]
    have "fold (\<lambda>account scores. scores(acc_id account \<mapsto> f account)) xs
            (m(acc_id x \<mapsto> f x)) (acc_id x) = Some (f x)"
      by (simp only: fun_upd_same)
    then show ?thesis unfolding True by (simp only: fold_simps o_apply)
  next
    case False
    with Cons.prems have "a \<in> set xs" "distinct (map acc_id xs)" by auto
    then show ?thesis using Cons.IH by simp
  qed
qed

lemma score_table_distinct:
  "distinct (map acc_id accounts) \<Longrightarrow> a \<in> set accounts \<Longrightarrow>
   the (score_table accounts (acc_id a)) = intelligent_score a accounts"
  by (simp add: score_table_def fold_score_distinct)

lemma sorted_accounts_mset: "mset (sorted_accounts accounts) = mset accounts"
  by (simp add: sorted_accounts_def sorted_reverse_def)

lemma sorted_accounts_set: "set (sorted_accounts accounts) = set accounts"
  by (simp add: sorted_accounts_def sorted_reverse_def)

lemma sorted_accounts_length: "length (sorted_accounts accounts) = length accounts"
  by (simp add: sorted_accounts_def sorted_reverse_def)

lemma top_percent_eq: "top_percent accounts = max 1 (length accounts div 5)"
  by (simp add: top_percent_def sorted_accounts_length)

lemma sorted_accounts_descending:
  assumes "distinct (map acc_id accounts)"
  shows "sorted_wrt (\<lambda>a b. intelligent_score a accounts \<ge> intelligent_score b accounts)
           (sorted_accounts accounts)"
proof -
  let ?key = "\<lambda>x. the (score_table accounts (acc_id x))"
  have "sorted (map (\<lambda>x. - ?key x) (sorted_accounts accounts))"
    by (simp add: sorted_accounts_def sorted_reverse_def)
  then have "sorted_wrt (\<lambda>a b. - ?key a \<le> - ?key b) (sorted_accounts accounts)"
    by (simp add: sorted_map)
  then show ?thesis
  proof (rule sorted_wrt_mono_rel [rotated])
    fix a b
    assume "a \<in> set (sorted_accounts accounts)" "b \<in> set (sorted_accounts accounts)"
      and "- ?key a \<le> - ?key b"
    then show "intelligent_score a accounts \<ge> intelligent_score b accounts"
      using score_table_distinct [OF assms] by (simp add: sorted_accounts_set)
  qed
qed

text \<open>
  Claim C1, as the code has it. For a non-empty candidate list the composite-intelligent
  strategy sorts the candidates (a permutation of the list) descending by the
  scheduler-weighted composite score, the ids being distinct, and returns the element
  of the sorted list at index \<open>r mod k\<close>, where \<open>r\<close> is the draw of the random source and
  \<open>k = max 1 (count div 5)\<close>: the pool is the top \<open>\<lfloor>count / 5\<rfloor>\<close> and at least 1, every
  member of which some draw picks. With 6 candidates the pick is always the top one.
\<close>

theorem intelligent_selection_pool:
  assumes "accounts \<noteq> []"
  shows "mset (sorted_accounts accounts) = mset accounts
    \<and> (distinct (map acc_id accounts) \<longrightarrow>
         sorted_wrt (\<lambda>a b. intelligent_score a accounts \<ge> intelligent_score b accounts)
           (sorted_accounts accounts))
    \<and> top_percent accounts = max 1 (length accounts div 5)
    \<and> top_percent accounts \<le> length accounts
    \<and> intelligent_selection r accounts
         = Some (sorted_accounts accounts ! (r mod top_percent accounts))
    \<and> (\<forall>i < top_percent accounts.
          intelligent_selection i accounts = Some (sorted_accounts accounts ! i))
    \<and> (length accounts = 6 \<longrightarrow>
          intelligent_selection r accounts = Some (sorted_accounts accounts ! 0))"
proof -
  let ?k = "top_percent accounts"
  from assms have len: "0 < length accounts" by simp
  have k: "?k = max 1 (length accounts div 5)" by (rule top_percent_eq)
  have kle: "?k \<le> length accounts" using len unfolding k by (simp add: Suc_leI)
  have kpos: "0 < ?k" unfolding k by simp
  have lt: "length (take ?k (sorted_accounts accounts)) = ?k"
    using kle by (simp add: sorted_accounts_length)
  have sel: "intelligent_selection r accounts = Some (sorted_accounts accounts ! (r mod ?k))" for r
    using assms kpos lt by (simp add: intelligent_selection_def random_choice_def)
  have each: "\<forall>i < ?k. intelligent_selection i accounts = Some (sorted_accounts accounts ! i)"
    using sel by simp
  have six: "length accounts = 6 \<Longrightarrow> ?k = 1" unfolding k by simp
  show ?thesis
    using sorted_accounts_mset sorted_accounts_descending k kle sel [of r] each six
    by simp
qed


lemmas six_defs = acc1_def acc2_def acc3_def acc_new_def acc5_def acc6_def mk_account_def

lemmas intelligent_defs = intelligent_score_def calculate_cost_score_def calculate_health_score_def
  calculate_performance_score_def calculate_reliability_score_def normalize_value_def
  all_costs_def cost_per_request_def a_cost_priority_def a_performance_def a_load_balance_def
  a_reliability_def

lemma six_distinct: "distinct (map acc_id six_accounts)"
  by (simp add: six_accounts_def six_defs)

lemma six_scores:
  "intelligent_score acc1 six_accounts = 4 / 10 * (6 / 7) + 2 / 10 * (792 / 1000) + 23 / 100"
  "intelligent_score acc2 six_accounts = 4 / 10 * (4 / 7) + 2 / 10 * (892 / 1000) + 23 / 100"
  "intelligent_score acc3 six_accounts = 4 / 10 * (5 / 7) + 2 / 10 * (696 / 1000) + 23 / 100"
  "intelligent_score acc_new six_accounts = 63 / 100"
  "intelligent_score acc5 six_accounts = 3476 / 10000"
  "intelligent_score acc6 six_accounts = 8268 / 10000"
  by (simp_all add: six_accounts_def intelligent_defs six_defs Let_def)

lemma six_keys:
  "the (score_table six_accounts (acc_id acc1)) = intelligent_score acc1 six_accounts"
  "the (score_table six_accounts (acc_id acc2)) = intelligent_score acc2 six_accounts"
  "the (score_table six_accounts (acc_id acc3)) = intelligent_score acc3 six_accounts"
  "the (score_table six_accounts (acc_id acc_new)) = intelligent_score acc_new six_accounts"
  "the (score_table six_accounts (acc_id acc5)) = intelligent_score acc5 six_accounts"
  "the (score_table six_accounts (acc_id acc6)) = intelligent_score acc6 six_accounts"
  by (rule score_table_distinct [OF six_distinct], simp add: six_accounts_def)+

lemma six_sorted:
  "sorted_accounts six_accounts = [acc6, acc1, acc3, acc2, acc_new, acc5]"
proof -
  have e: "sort_key f six_accounts = sort_key f [acc1, acc2, acc3, acc_new, acc5, acc6]"
    for f :: "Account \<Rightarrow> real"
    by (simp only: six_accounts_def)
  have "sorted_accounts six_accounts
      = sort_key (\<lambda>x. - the (score_table six_accounts (acc_id x)))
          [acc1, acc2, acc3, acc_new, acc5, acc6]"
    unfolding sorted_accounts_def sorted_reverse_def by (rule e)
  also have "\<dots> = [acc6, acc1, acc3, acc2, acc_new, acc5]"
    by (simp add: six_keys six_scores)
  finally show ?thesis .
qed

theorem intelligent_selection_pool_witness:
  "six_accounts \<noteq> [] \<and> distinct (map acc_id six_accounts) \<and> length six_accounts = 6
   \<and> top_percent six_accounts = 1
   \<and> intelligent_selection 0 six_accounts = Some (sorted_accounts six_accounts ! 0)
   \<and> intelligent_selection 1 six_accounts = Some (sorted_accounts six_accounts ! 0)
   \<and> sorted_wrt (\<lambda>a b. intelligent_score a six_accounts \<ge> intelligent_score b six_accounts)
         (sorted_accounts six_accounts)"
proof -
  have ne: "six_accounts \<noteq> []" and len: "length six_accounts = 6"
    by (simp_all add: six_accounts_def)
  show ?thesis
    using ne len six_distinct intelligent_selection_pool [OF ne, of 1]
    by simp
qed

text \<open>
  Claim C1 as stated fails: the specification takes the top \<open>\<lceil>count / 5\<rceil>\<close>, which is 2
  of 6 candidates, while the code takes \<open>max 1 (6 div 5) = 1\<close>; the second-best
  account \<open>acc1\<close> is never in the pool.
\<close>

theorem top_count_counterexample:
  "length six_accounts = 6
   \<and> spec_top_count (length six_accounts) = 2
   \<and> take (spec_top_count (length six_accounts)) (sorted_accounts six_accounts) = [acc6, acc1]
   \<and> take (top_percent six_accounts) (sorted_accounts six_accounts) = [acc6]
   \<and> intelligent_selection 0 six_accounts = Some acc6
   \<and> intelligent_selection 1 six_accounts = Some acc6"
proof -
  have len: "length six_accounts = 6" by (simp add: six_accounts_def)
  have k: "top_percent six_accounts = 1" by (simp add: top_percent_eq len)
  have c: "spec_top_count 6 = 2" by (simp add: spec_top_count_def)
  have ne: "six_accounts \<noteq> []" using len by auto
  show ?thesis
    by (simp add: len k c ne six_sorted intelligent_selection_def random_choice_def)
qed

section \<open>The scheduler\<close>

lemma filter_available_stats:
  "selection_stats (snd (snd (filter_available_accounts sch now xs))) = selection_stats sch"
proof (induction xs arbitrary: sch)
  case Nil
  then show ?case by simp
next
  case (Cons x xs)
  show ?case
    by (simp add: Let_def case_prod_beta Cons.IH)
qed

lemma filter_available_stats_indep:
  "filter_available_accounts (sch\<lparr>selection_stats := s\<rparr>) now xs
     = (fst (filter_available_accounts sch now xs),
        fst (snd (filter_available_accounts sch now xs)),
        (snd (snd (filter_available_accounts sch now xs)))\<lparr>selection_stats := s\<rparr>)"
proof (induction xs arbitrary: sch)
  case Nil
  then show ?case by simp
next
  case (Cons x xs)
  let ?a = "refresh_metrics (metrics_collector sch) x"
  let ?h = "check_account_health (health_monitor sch) now ?a"
  let ?u = "can_use_account (failure_recovery sch) now (acc_id ?a)"
  have c1: "r\<lparr>selection_stats := s, health_monitor := X\<rparr>
            = r\<lparr>health_monitor := X, selection_stats := s\<rparr>"
    for r :: IntelligentScheduler and X by simp
  have c2: "r\<lparr>selection_stats := s, failure_recovery := Y\<rparr>
            = r\<lparr>failure_recovery := Y, selection_stats := s\<rparr>"
    for r :: IntelligentScheduler and Y by simp
  show ?case
    by (simp add: Let_def case_prod_beta c1 c2 Cons.IH)
qed

lemma filter_available_refreshed_length:
  "length (fst (filter_available_accounts sch now xs)) = length xs"
  by (induction xs arbitrary: sch) (simp_all add: Let_def case_prod_beta)

text \<open>The two paths that return before a strategy is chosen.\<close>

lemma select_account_fallback:
  assumes "fst (snd (filter_available_accounts sch (t_check env) accounts)) = []"
    and "accounts \<noteq> []"
  shows "fst (select_account sch env accounts context)
       = Some (random_choice (rnd_fallback env)
                 (fst (filter_available_accounts sch (t_check env) accounts)))"
proof -
  have "fst (filter_available_accounts sch (t_check env) accounts) \<noteq> []"
    using filter_available_refreshed_length [of sch "t_check env" accounts] assms(2) by auto
  then show ?thesis
    using assms(1)
    by (simp add: select_account_def Let_def filter_available_stats_indep fallback_def)
qed

lemma select_account_single:
  assumes "fst (snd (filter_available_accounts sch (t_check env) accounts)) = [a]"
  shows "fst (select_account sch env accounts context) = Some a"
  using assms
  by (simp add: select_account_def Let_def filter_available_stats_indep)

lemma select_account_empty:
  "fst (select_account sch env [] context) = None"
  by (simp add: select_account_def Let_def fallback_def)

lemma apply_selection_stats:
  "selection_stats (snd (apply_selection_algorithm sch r algorithm xs)) = selection_stats sch"
  by (simp add: apply_selection_algorithm_def split: prod.splits)

lemma apply_selection_no_error:
  "xs \<noteq> [] \<Longrightarrow> \<exists>sel. fst (apply_selection_algorithm sch r algorithm xs) = Inr sel"
  by (simp add: apply_selection_algorithm_def split: prod.splits)


lemma apply_selection_no_Inl:
  "xs \<noteq> [] \<Longrightarrow> apply_selection_algorithm sch r algorithm xs \<noteq> (Inl e, s')"
  by (auto simp: apply_selection_algorithm_def split: prod.splits if_splits)

lemma apply_selection_stats_eq:
  "apply_selection_algorithm sch r algorithm xs = (y, s') \<Longrightarrow>
   selection_stats s' = selection_stats sch"
  using apply_selection_stats [of sch r algorithm xs] by simp

lemma select_account_main:
  assumes two: "2 \<le> length (fst (snd (filter_available_accounts sch (t_check env) accounts)))"
    and nonneg: "0 \<le> total_selections (selection_stats sch)"
  shows "selection_stats (snd (select_account sch env accounts context))
       = (selection_stats sch)
           \<lparr>total_selections := total_selections (selection_stats sch) + 1,
            algorithm_usage := (algorithm_usage (selection_stats sch))
               (select_algorithm context :=
                  algorithm_usage (selection_stats sch) (select_algorithm context) + 1),
            avg_selection_time :=
              (avg_selection_time (selection_stats sch)
                 * real_of_int (total_selections (selection_stats sch) + 1 - 1)
               + (t_end env - t_start env))
              / real_of_int (total_selections (selection_stats sch) + 1)\<rparr>"
    and "\<exists>sel. fst (select_account sch env accounts context)
           = map_option (\<lambda>a. a\<lparr>metrics := (metrics a)\<lparr>last_used := Some (t_end env)\<rparr>\<rparr>) sel"
proof -
  let ?A = "fst (snd (filter_available_accounts sch (t_check env) accounts))"
  from two have ne: "?A \<noteq> []" and n1: "length ?A \<noteq> Suc 0" by auto
  from nonneg have nz: "total_selections (selection_stats sch) + 1 \<noteq> 0" by simp
  show "selection_stats (snd (select_account sch env accounts context))
       = (selection_stats sch)
           \<lparr>total_selections := total_selections (selection_stats sch) + 1,
            algorithm_usage := (algorithm_usage (selection_stats sch))
               (select_algorithm context :=
                  algorithm_usage (selection_stats sch) (select_algorithm context) + 1),
            avg_selection_time :=
              (avg_selection_time (selection_stats sch)
                 * real_of_int (total_selections (selection_stats sch) + 1 - 1)
               + (t_end env - t_start env))
              / real_of_int (total_selections (selection_stats sch) + 1)\<rparr>"
    using ne n1 nz
    by (auto simp: select_account_def Let_def filter_available_stats_indep
        record_selection_metrics_def apply_selection_no_Inl
        split: prod.splits sum.splits dest!: apply_selection_stats_eq)
  show "\<exists>sel. fst (select_account sch env accounts context)
           = map_option (\<lambda>a. a\<lparr>metrics := (metrics a)\<lparr>last_used := Some (t_end env)\<rparr>\<rparr>) sel"
    using ne n1 nz
    by (auto simp: select_account_def Let_def filter_available_stats_indep
        record_selection_metrics_def apply_selection_no_Inl
        split: prod.splits sum.splits dest!: apply_selection_stats_eq)
qed

text \<open>
  Claim C2, as the code has it. When at least two candidates survive filtering (the
  selection counter being non-negative, as it is from the initial state on) and the
  call returns an account, the scheduler counts the selection, records the elapsed
  time into the running mean \<open>(oldMean * (n - 1) + elapsed) / n\<close> with \<open>n\<close> the new
  selection count, increments the usage counter of the strategy chosen from the
  context, and the returned account carries the time of the call as \<^verbatim>\<open>last_used\<close>.
\<close>

theorem select_account_records:
  assumes two: "2 \<le> length (fst (snd (filter_available_accounts sch (t_check env) accounts)))"
    and nonneg: "0 \<le> total_selections (selection_stats sch)"
    and ret: "fst (select_account sch env accounts context) = Some a"
  shows "total_selections (selection_stats (snd (select_account sch env accounts context)))
           = total_selections (selection_stats sch) + 1
    \<and> avg_selection_time (selection_stats (snd (select_account sch env accounts context)))
           = (avg_selection_time (selection_stats sch)
                * real_of_int (total_selections (selection_stats sch) + 1 - 1)
              + (t_end env - t_start env))
             / real_of_int (total_selections (selection_stats sch) + 1)
    \<and> algorithm_usage (selection_stats (snd (select_account sch env accounts context)))
           = (algorithm_usage (selection_stats sch))
               (select_algorithm context :=
                  algorithm_usage (selection_stats sch) (select_algorithm context) + 1)
    \<and> last_used (metrics a) = Some (t_end env)"
proof -
  note m = select_account_main [OF two nonneg, of "context"]
  from m(2) ret obtain sel where
    "Some a = map_option (\<lambda>a. a\<lparr>metrics := (metrics a)\<lparr>last_used := Some (t_end env)\<rparr>\<rparr>) sel"
    by auto
  then have "last_used (metrics a) = Some (t_end env)" by (cases sel) auto
  then show ?thesis unfolding m(1) by simp
qed

lemmas sched_defs = select_account_def fallback_def record_selection_metrics_def
  apply_selection_algorithm_def select_algorithm_def context_get_def refresh_metrics_def
  get_metrics_def check_account_health_def cache_valid_def health_verdict_def
  measure_health_metrics_def can_use_account_def random_choice_def
  record_request_result_def record_request_def deque_append_def mark_success_def
  IntelligentScheduler_init_def MetricsCollector_init_def HealthMonitor_init_def
  FailureRecovery_init_def WeightedRoundRobin_init_def env_at_def

lemmas ex_defs = acc1_def acc2_def acc1_inactive_def acc2_inactive_def mk_account_def

lemmas intelligent_eval = intelligent_score_def calculate_cost_score_def calculate_health_score_def
  calculate_performance_score_def calculate_reliability_score_def normalize_value_def
  all_costs_def cost_per_request_def a_cost_priority_def a_performance_def a_load_balance_def
  a_reliability_def intelligent_selection_def sorted_accounts_def sorted_reverse_def
  top_percent_def score_table_def

lemma warm_two_available:
  "length (fst (snd (filter_available_accounts warm_scheduler (t_check (env_at 0)) [acc1, acc2]))) = 2"
  by (simp add: sched_defs ex_defs warm_scheduler_def Let_def)

lemma warm_main_path:
  "map_option acc_id (fst (select_account warm_scheduler (env_at 0) [acc1, acc2] None)) = Some ''acc2''"
  by (simp add: sched_defs intelligent_eval ex_defs warm_scheduler_def Let_def)

theorem select_account_records_witness:
  "2 \<le> length (fst (snd (filter_available_accounts warm_scheduler (t_check (env_at 0)) [acc1, acc2])))
   \<and> 0 \<le> total_selections (selection_stats warm_scheduler)
   \<and> map_option acc_id (fst (select_account warm_scheduler (env_at 0) [acc1, acc2] None)) = Some ''acc2''
   \<and> total_selections (selection_stats (snd (select_account warm_scheduler (env_at 0) [acc1, acc2] None))) = 1
   \<and> avg_selection_time (selection_stats (snd (select_account warm_scheduler (env_at 0) [acc1, acc2] None))) = 1
   \<and> algorithm_usage (selection_stats (snd (select_account warm_scheduler (env_at 0) [acc1, acc2] None)))
         ''intelligent'' = 1
   \<and> last_used (metrics (the (fst (select_account warm_scheduler (env_at 0) [acc1, acc2] None)))) = Some 1"
proof -
  have two: "2 \<le> length (fst (snd (filter_available_accounts warm_scheduler (t_check (env_at 0)) [acc1, acc2])))"
    using warm_two_available by (simp del: filter_available_accounts.simps)
  have nonneg: "0 \<le> total_selections (selection_stats warm_scheduler)"
    and zero: "total_selections (selection_stats warm_scheduler) = 0"
      "avg_selection_time (selection_stats warm_scheduler) = 0"
      "algorithm_usage (selection_stats warm_scheduler) ''intelligent'' = 0"
    by (simp_all add: warm_scheduler_def record_request_result_def IntelligentScheduler_init_def Let_def)
  have ret: "fst (select_account warm_scheduler (env_at 0) [acc1, acc2] None)
      = Some (the (fst (select_account warm_scheduler (env_at 0) [acc1, acc2] None)))"
    using warm_main_path by (cases "fst (select_account warm_scheduler (env_at 0) [acc1, acc2] None)") simp_all
  show ?thesis
    using two nonneg zero warm_main_path select_account_records [OF two nonneg ret]
    by (simp add: select_algorithm_def env_at_def del: filter_available_accounts.simps)
qed

text \<open>
  Claim C2 as stated fails on the two paths that return before the recording. With
  exactly one candidate surviving the filter (\<open>warm_scheduler\<close>, \<open>acc1\<close> alone), and on
  the fallback path (the initial scheduler, where \<open>acc1\<close> has no recorded success and
  fails the health check), the call takes one second and returns the account, but the
  running mean stays 0, no usage counter moves and \<^verbatim>\<open>last_used\<close> stays unset.
\<close>

theorem select_records_counterexample:
  "fst (select_account warm_scheduler (env_at 10) [acc1] None)
     = Some (refresh_metrics (metrics_collector warm_scheduler) acc1)
   \<and> last_used (metrics (refresh_metrics (metrics_collector warm_scheduler) acc1)) = None
   \<and> t_end (env_at 10) - t_start (env_at 10) = 1
   \<and> total_selections (selection_stats (snd (select_account warm_scheduler (env_at 10) [acc1] None))) = 1
   \<and> avg_selection_time (selection_stats (snd (select_account warm_scheduler (env_at 10) [acc1] None))) = 0
   \<and> algorithm_usage (selection_stats (snd (select_account warm_scheduler (env_at 10) [acc1] None)))
        (select_algorithm None) = 0
   \<and> fst (select_account IntelligentScheduler_init (env_at 10) [acc1] None)
     = Some (refresh_metrics (metrics_collector IntelligentScheduler_init) acc1)
   \<and> last_used (metrics (refresh_metrics (metrics_collector IntelligentScheduler_init) acc1)) = None
   \<and> avg_selection_time
        (selection_stats (snd (select_account IntelligentScheduler_init (env_at 10) [acc1] None))) = 0
   \<and> algorithm_usage
        (selection_stats (snd (select_account IntelligentScheduler_init (env_at 10) [acc1] None)))
        (select_algorithm None) = 0"
  by (simp add: sched_defs ex_defs warm_scheduler_def Let_def)

text \<open>
  Claim C3 fails on the code. The health verdicts of \<open>acc1\<close> and \<open>acc2\<close> are cached as
  healthy by a call at time 0; ten seconds later both accounts are inactive, the cache
  still passes them, the cost-first strategy finds no active account and returns
  nothing, and \<^verbatim>\<open>select_account\<close> returns \<^verbatim>\<open>None\<close> for a list of two accounts.
\<close>

theorem select_returns_none_for_nonempty:
  "[acc1_inactive, acc2_inactive] \<noteq> []
   \<and> map_option acc_id (fst (select_account warm_scheduler (env_at 0) [acc1, acc2] None)) = Some ''acc2''
   \<and> fst (select_account (snd (select_account warm_scheduler (env_at 0) [acc1, acc2] None))
            (env_at 10) [acc1_inactive, acc2_inactive] (Some [(''cost_sensitive'', True)])) = None"
  by (simp add: sched_defs intelligent_eval CostOptimizer_select_account_def ex_defs
      warm_scheduler_def Let_def)

end
